theory Spec2Isabelle
  imports Main
begin

section \<open>The avatar service registry (djblets/avatars/registry.py)\<close>

text \<open>
  An avatar service is a Python object; the registry only reads its
  \<^verbatim>\<open>avatar_service_id\<close> attribute and compares objects by identity. The
  field \<open>obj_id\<close> stands for the identity of the object.
\<close>

record service =
  obj_id :: nat
  avatar_service_id :: string

text \<open>The keys of the error message table \<^verbatim>\<open>AVATAR_SERVICE_DEFAULT_ERRORS\<close>.\<close>

datatype error_key =
    ALREADY_REGISTERED
  | ATTRIBUTE_REGISTERED
  | DISABLED_SERVICE_DEFAULT
  | NOT_REGISTERED
  | UNKNOWN_SERVICE_DEFAULT
  | UNKNOWN_SERVICE_DISABLED
  | UNKNOWN_SERVICE_ENABLED
  | UNREGISTER

text \<open>
  The exceptions of the registry, each with the key of its message and the value
  the message is formatted with. \<open>AvatarServiceNotFoundError\<close> is the registry's
  \<^verbatim>\<open>lookup_error_class\<close>, a subclass of \<^verbatim>\<open>ItemLookupError\<close>.
\<close>

datatype error =
    AlreadyRegisteredError error_key string
  | NotRegisteredError error_key string
  | AvatarServiceNotFoundError error_key string
  | DisabledServiceError error_key string

fun is_ItemLookupError :: "error \<Rightarrow> bool" where
  "is_ItemLookupError (AvatarServiceNotFoundError k v) = True"
| "is_ItemLookupError e = False"

fun is_DisabledServiceError :: "error \<Rightarrow> bool" where
  "is_DisabledServiceError (DisabledServiceError k v) = True"
| "is_DisabledServiceError e = False"

text \<open>
  Modelled from the spec: the key/value store (\<^verbatim>\<open>SiteConfiguration\<close>, whose
  module is not among the sources). The spec gives it \<^verbatim>\<open>get\<close>, \<^verbatim>\<open>set\<close> and
  \<^verbatim>\<open>save\<close> and the two keys the registry uses: \<^verbatim>\<open>avatars_enabled_services\<close>
  (a list of strings) and \<^verbatim>\<open>avatars_default_service\<close> (a string or null). A key
  that was never set reads as \<open>None\<close>. \<open>saves\<close> counts the commits of the store.
\<close>

record site_configuration =
  avatars_enabled_services :: "string list option"
  avatars_default_service :: "string option"
  saves :: nat

text \<open>
  The state of an \<^verbatim>\<open>AvatarServiceRegistry\<close>. A field \<open>priv_x\<close> is the Python
  attribute \<^verbatim>\<open>_x\<close>. The Python set \<^verbatim>\<open>_enabled_services\<close> is a list without
  duplicates; the order of the list is the order in which Python would iterate over
  the set, which the language leaves open, so no theorem below depends on it.
  \<open>default_avatar_service_classes\<close> holds the objects that \<^verbatim>\<open>get_defaults\<close>
  yields. \<open>logging\<close> collects what \<^verbatim>\<open>logging.error\<close> is called with, \<open>siteconfig\<close> is the
  current site configuration.
\<close>

record registry =
  priv_populated :: bool
  priv_registry :: "string \<rightharpoonup> service"
  priv_enabled_services :: "string list"
  priv_default_service_id :: "string option"
  default_avatar_service_classes :: "service list"
  siteconfig :: site_configuration
  logging :: "(error_key \<times> string) list"

definition new_registry :: "service list \<Rightarrow> site_configuration \<Rightarrow> registry" where
  "new_registry defaults cfg =
     \<lparr>priv_populated = False, priv_registry = Map.empty, priv_enabled_services = [],
      priv_default_service_id = None, default_avatar_service_classes = defaults,
      siteconfig = cfg, logging = []\<rparr>"

text \<open>A call either raises (\<open>Inl\<close>) or returns (\<open>Inr\<close>); the state it leaves comes with both.\<close>

type_synonym 'a result = "(error + 'a) \<times> registry"

definition then_do :: "'a result \<Rightarrow> ('a \<Rightarrow> registry \<Rightarrow> 'b result) \<Rightarrow> 'b result" where
  "then_do m f = (case m of (Inl e, r) \<Rightarrow> (Inl e, r) | (Inr x, r) \<Rightarrow> f x r)"

definition log_error :: "error_key \<Rightarrow> string \<Rightarrow> registry \<Rightarrow> registry" where
  "log_error k v r = r\<lparr>logging := logging r @ [(k, v)]\<rparr>"

subsection \<open>The base class\<close>

text \<open>
  Modelled from the spec: the base class \<^verbatim>\<open>Registry\<close> (djblets/registries/registry.py
  is not among the sources). The avatar registry declares the single lookup attribute
  \<^verbatim>\<open>avatar_service_id\<close>, so the spec's index \<open>entries\<close> is one map from that
  attribute's values to entries. Following the spec: \<open>get\<close> fails with the registry's
  lookup error if no entry has the attribute value; \<open>register\<close> fails with
  \<open>AlreadyRegisteredError\<close> if the attribute value collides with an existing entry and
  inserts otherwise; \<open>unregister\<close> fails with \<open>NotRegisteredError\<close> if the entry is absent
  and removes it otherwise; \<open>populate\<close> is a no-op once the registry is populated and
  otherwise registers every default entry, treating the registry as populated during
  its own execution. The functions below are the bodies of these methods at a state
  where population has already started; the public entry points populate first.
\<close>

definition registry_get :: "string \<Rightarrow> string \<Rightarrow> registry \<Rightarrow> error + service" where
  "registry_get attr_name attr_value r =
     (if attr_name \<noteq> ''avatar_service_id''
      then Inl (AvatarServiceNotFoundError NOT_REGISTERED attr_value)
      else (case priv_registry r attr_value of
              None \<Rightarrow> Inl (AvatarServiceNotFoundError NOT_REGISTERED attr_value)
            | Some item \<Rightarrow> Inr item))"

definition registry_contains :: "service \<Rightarrow> registry \<Rightarrow> bool" where
  "registry_contains item r = (priv_registry r (avatar_service_id item) = Some item)"

definition registry_register :: "service \<Rightarrow> registry \<Rightarrow> unit result" where
  "registry_register item r =
     (if priv_registry r (avatar_service_id item) \<noteq> None
      then (Inl (AlreadyRegisteredError ATTRIBUTE_REGISTERED (avatar_service_id item)), r)
      else (Inr (), r\<lparr>priv_registry := (priv_registry r)(avatar_service_id item \<mapsto> item)\<rparr>))"

definition registry_unregister :: "service \<Rightarrow> registry \<Rightarrow> unit result" where
  "registry_unregister item r =
     (if \<not> registry_contains item r
      then (Inl (NotRegisteredError UNREGISTER (avatar_service_id item)), r)
      else (Inr (), r\<lparr>priv_registry := (priv_registry r)(avatar_service_id item := None)\<rparr>))"

fun register_all :: "service list \<Rightarrow> registry \<Rightarrow> unit result" where
  "register_all [] r = (Inr (), r)"
| "register_all (item # items) r =
     then_do (registry_register item r) (\<lambda>u. register_all items)"

definition registry_populate :: "registry \<Rightarrow> unit result" where
  "registry_populate r =
     (if priv_populated r then (Inr (), r)
      else register_all (default_avatar_service_classes r) (r\<lparr>priv_populated := True\<rparr>))"

subsection \<open>The methods at a populated registry\<close>

text \<open>
  Every public method of \<^verbatim>\<open>AvatarServiceRegistry\<close> starts by populating the
  registry, directly or through \<^verbatim>\<open>has_service\<close> and \<^verbatim>\<open>Registry.get\<close>. Once
  \<^verbatim>\<open>populated\<close> is set, every later \<^verbatim>\<open>self.populate()\<close> returns at its first
  line. The functions named \<open>f_populated\<close> are the bodies of the methods \<open>f\<close> with
  those inner calls dropped; \<open>populate\<close> is built from them, and the public methods
  are \<open>populate\<close> followed by the body.
\<close>

definition get_avatar_service_populated :: "string \<Rightarrow> registry \<Rightarrow> error + service" where
  "get_avatar_service_populated sid r = registry_get ''avatar_service_id'' sid r"

text \<open>
  \<^verbatim>\<open>has_service\<close> catches \<^verbatim>\<open>ItemLookupError\<close>; the lookup raises nothing else.
\<close>

definition has_service_populated :: "string \<Rightarrow> registry \<Rightarrow> bool" where
  "has_service_populated sid r =
     (case get_avatar_service_populated sid r of
        Inr s \<Rightarrow> registry_contains s r
      | Inl e \<Rightarrow> False)"

definition is_enabled_populated :: "string \<Rightarrow> registry \<Rightarrow> bool" where
  "is_enabled_populated sid r =
     (has_service_populated sid r \<and> sid \<in> set (priv_enabled_services r))"

definition save :: "registry \<Rightarrow> registry" where
  "save r =
     r\<lparr>siteconfig :=
         \<lparr>avatars_enabled_services = Some (priv_enabled_services r),
          avatars_default_service = priv_default_service_id r,
          saves = Suc (saves (siteconfig r))\<rparr>\<rparr>"

definition save_if :: "bool \<Rightarrow> registry \<Rightarrow> registry" where
  "save_if flag r = (if flag then save r else r)"

definition set_default_service_populated :: "service option \<Rightarrow> bool \<Rightarrow> registry \<Rightarrow> unit result" where
  "set_default_service_populated svc flag r =
     (case svc of
        None \<Rightarrow> (Inr (), save_if flag (r\<lparr>priv_default_service_id := None\<rparr>))
      | Some s \<Rightarrow>
          if \<not> registry_contains s r
          then (Inl (AvatarServiceNotFoundError UNKNOWN_SERVICE_DEFAULT (avatar_service_id s)), r)
          else if \<not> is_enabled_populated (avatar_service_id s) r
          then (Inl (DisabledServiceError DISABLED_SERVICE_DEFAULT (avatar_service_id s)), r)
          else (Inr (), save_if flag (r\<lparr>priv_default_service_id := Some (avatar_service_id s)\<rparr>)))"

definition default_service_populated :: "registry \<Rightarrow> error + service option" where
  "default_service_populated r =
     (case priv_default_service_id r of
        None \<Rightarrow> Inr None
      | Some d \<Rightarrow>
          (case get_avatar_service_populated d r of
             Inl e \<Rightarrow> Inl e
           | Inr s \<Rightarrow> Inr (Some s)))"

text \<open>
  \<^verbatim>\<open>disable_service\<close>: the inner \<^verbatim>\<open>self.set_default_service(None)\<close> is called
  without a \<^verbatim>\<open>save\<close> argument, so with the default \<^verbatim>\<open>save=True\<close>.
\<close>

definition disable_service_populated :: "string \<Rightarrow> bool \<Rightarrow> registry \<Rightarrow> unit result" where
  "disable_service_populated sid flag r =
     (if \<not> has_service_populated sid r
      then (Inl (AvatarServiceNotFoundError UNKNOWN_SERVICE_DISABLED sid), r)
      else
        let r1 = r\<lparr>priv_enabled_services := removeAll sid (priv_enabled_services r)\<rparr> in
        (case default_service_populated r1 of
           Inl e \<Rightarrow> (Inl e, r1)
         | Inr ds \<Rightarrow>
             then_do
               (case ds of
                  None \<Rightarrow> (Inr (), r1)
                | Some d \<Rightarrow>
                    if avatar_service_id d = sid
                    then set_default_service_populated None True r1
                    else (Inr (), r1))
               (\<lambda>u r2. (Inr (), save_if flag r2))))"

definition enable_service_populated :: "string \<Rightarrow> bool \<Rightarrow> registry \<Rightarrow> unit result" where
  "enable_service_populated sid flag r =
     (if \<not> has_service_populated sid r
      then (Inl (AvatarServiceNotFoundError UNKNOWN_SERVICE_ENABLED sid), r)
      else (Inr (), save_if flag (r\<lparr>priv_enabled_services := List.insert sid (priv_enabled_services r)\<rparr>)))"

subsection \<open>Population\<close>

text \<open>The loop of \<^verbatim>\<open>populate\<close> over the persisted list of enabled ids.\<close>

fun enable_persisted :: "string list \<Rightarrow> registry \<Rightarrow> unit result" where
  "enable_persisted [] r = (Inr (), r)"
| "enable_persisted (sid # sids) r =
     (if has_service_populated sid r
      then then_do (enable_service_populated sid False r) (\<lambda>u. enable_persisted sids)
      else enable_persisted sids (log_error UNKNOWN_SERVICE_ENABLED sid r))"

text \<open>The \<^verbatim>\<open>try\<close> block of \<^verbatim>\<open>populate\<close> with its two handlers.\<close>

definition populate_default :: "string \<Rightarrow> registry \<Rightarrow> unit result" where
  "populate_default d r =
     (case (case registry_get ''avatar_service_id'' d r of
              Inl e \<Rightarrow> (Inl e, r)
            | Inr s \<Rightarrow> set_default_service_populated (Some s) True r) of
        (Inr u, r1) \<Rightarrow> (Inr u, r1)
      | (Inl e, r1) \<Rightarrow>
          if is_ItemLookupError e then (Inr (), log_error UNKNOWN_SERVICE_DEFAULT d r1)
          else if is_DisabledServiceError e then (Inr (), log_error DISABLED_SERVICE_DEFAULT d r1)
          else (Inl e, r1))"

definition populate :: "registry \<Rightarrow> unit result" where
  "populate r =
     (if priv_populated r then (Inr (), r)
      else
        then_do (registry_populate r) (\<lambda>u r1.
        then_do (case avatars_enabled_services (siteconfig r1) of
                   None \<Rightarrow> (Inr (), r1)
                 | Some sids \<Rightarrow> enable_persisted sids r1) (\<lambda>u r2.
        then_do (case avatars_default_service (siteconfig r2) of
                   None \<Rightarrow> (Inr (), r2)
                 | Some d \<Rightarrow> populate_default d r2) (\<lambda>u r3.
        (Inr (), save r3)))))"

subsection \<open>The public methods\<close>

definition after_populate :: "(registry \<Rightarrow> 'a result) \<Rightarrow> registry \<Rightarrow> 'a result" where
  "after_populate f r = then_do (populate r) (\<lambda>u. f)"

definition register :: "service \<Rightarrow> registry \<Rightarrow> unit result" where
  "register item = after_populate (registry_register item)"

definition get_avatar_service :: "string \<Rightarrow> registry \<Rightarrow> service result" where
  "get_avatar_service sid = after_populate (\<lambda>r. (get_avatar_service_populated sid r, r))"

definition has_service :: "string \<Rightarrow> registry \<Rightarrow> bool result" where
  "has_service sid = after_populate (\<lambda>r. (Inr (has_service_populated sid r), r))"

definition is_enabled :: "string \<Rightarrow> registry \<Rightarrow> bool result" where
  "is_enabled sid = after_populate (\<lambda>r. (Inr (is_enabled_populated sid r), r))"

definition default_service :: "registry \<Rightarrow> service option result" where
  "default_service = after_populate (\<lambda>r. (default_service_populated r, r))"

definition set_default_service :: "service option \<Rightarrow> bool \<Rightarrow> registry \<Rightarrow> unit result" where
  "set_default_service svc flag = after_populate (set_default_service_populated svc flag)"

definition disable_service :: "string \<Rightarrow> bool \<Rightarrow> registry \<Rightarrow> unit result" where
  "disable_service sid flag = after_populate (disable_service_populated sid flag)"

definition enable_service :: "string \<Rightarrow> bool \<Rightarrow> registry \<Rightarrow> unit result" where
  "enable_service sid flag = after_populate (enable_service_populated sid flag)"

text \<open>
  \<^verbatim>\<open>unregister\<close> disables the service's id (saving) and then calls the base
  class, at a registry that the first call has populated.
\<close>

definition unregister :: "service \<Rightarrow> registry \<Rightarrow> unit result" where
  "unregister svc r =
     then_do (disable_service (avatar_service_id svc) True r) (\<lambda>u. registry_unregister svc)"

text \<open>The getter of \<^verbatim>\<open>enabled_services\<close>: the services of the enabled ids.\<close>

fun lookup_each :: "string list \<Rightarrow> registry \<Rightarrow> error + service list" where
  "lookup_each [] r = Inr []"
| "lookup_each (sid # sids) r =
     (case get_avatar_service_populated sid r of
        Inl e \<Rightarrow> Inl e
      | Inr s \<Rightarrow> (case lookup_each sids r of Inl e \<Rightarrow> Inl e | Inr ss \<Rightarrow> Inr (s # ss)))"

definition enabled_services :: "registry \<Rightarrow> service list result" where
  "enabled_services = after_populate (\<lambda>r. (lookup_each (priv_enabled_services r) r, r))"

text \<open>
  The setter of \<^verbatim>\<open>enabled_services\<close>. Its argument is any iterable of services,
  here a list; \<^verbatim>\<open>set(services)\<close> drops the duplicates. The three loops follow.
\<close>

fun check_registered :: "service list \<Rightarrow> registry \<Rightarrow> error option" where
  "check_registered [] r = None"
| "check_registered (s # ss) r =
     (if \<not> has_service_populated (avatar_service_id s) r
      then Some (AvatarServiceNotFoundError UNKNOWN_SERVICE_ENABLED (avatar_service_id s))
      else check_registered ss r)"

fun disable_each :: "string list \<Rightarrow> registry \<Rightarrow> unit result" where
  "disable_each [] r = (Inr (), r)"
| "disable_each (sid # sids) r =
     then_do (disable_service_populated sid False r) (\<lambda>u. disable_each sids)"

fun enable_each :: "string list \<Rightarrow> registry \<Rightarrow> unit result" where
  "enable_each [] r = (Inr (), r)"
| "enable_each (sid # sids) r =
     then_do (enable_service_populated sid False r) (\<lambda>u. enable_each sids)"

definition set_enabled_services_populated :: "service list \<Rightarrow> registry \<Rightarrow> unit result" where
  "set_enabled_services_populated services r =
     (case check_registered (remdups services) r of
        Some e \<Rightarrow> (Inl e, r)
      | None \<Rightarrow>
          let new_service_ids = remdups (map avatar_service_id (remdups services));
              to_enable = filter (\<lambda>i. i \<notin> set (priv_enabled_services r)) new_service_ids;
              to_disable = filter (\<lambda>i. i \<notin> set new_service_ids) (priv_enabled_services r)
          in
          then_do (disable_each to_disable r) (\<lambda>u r1.
          then_do (enable_each to_enable r1) (\<lambda>u r2.
          (case default_service_populated r2 of
             Inl e \<Rightarrow> (Inl e, r2)
           | Inr ds \<Rightarrow>
               then_do
                 (case ds of
                    None \<Rightarrow> (Inr (), r2)
                  | Some d \<Rightarrow>
                      if \<not> is_enabled_populated (avatar_service_id d) r2
                      then set_default_service_populated None True r2
                      else (Inr (), r2))
                 (\<lambda>u r3. (Inr (), save r3))))))"

definition set_enabled_services :: "service list \<Rightarrow> registry \<Rightarrow> unit result" where
  "set_enabled_services services = after_populate (set_enabled_services_populated services)"

text \<open>
  \<^verbatim>\<open>for_user\<close>. The settings manager (djblets/avatars/settings.py) is not among
  the sources; the id it reports for the user, \<^verbatim>\<open>user_service_id\<close>, is an argument.
\<close>

fun try_service_ids :: "string option list \<Rightarrow> registry \<Rightarrow> error + service option" where
  "try_service_ids [] r = default_service_populated r"
| "try_service_ids (None # sids) r = try_service_ids sids r"
| "try_service_ids (Some sid # sids) r =
     (if has_service_populated sid r \<and> is_enabled_populated sid r
      then (case get_avatar_service_populated sid r of
              Inl e \<Rightarrow> Inl e
            | Inr s \<Rightarrow> Inr (Some s))
      else try_service_ids sids r)"

definition for_user :: "string option \<Rightarrow> string option \<Rightarrow> registry \<Rightarrow> service option result" where
  "for_user user_service_id service_id =
     after_populate (\<lambda>r. (try_service_ids [service_id, user_service_id] r, r))"

subsection \<open>Reachable states and the invariant\<close>

text \<open>
  The states a registry can be in: a new registry, whose default services have
  pairwise different ids (the class lists one, the Gravatar service), and every state
  a public method leaves, whether it returned or raised. The site configuration is
  shared with other writers and may change at any time. Every reading method
  (\<^verbatim>\<open>get_avatar_service\<close>, \<^verbatim>\<open>has_service\<close>, \<^verbatim>\<open>is_enabled\<close>,
  \<^verbatim>\<open>default_service\<close>, \<^verbatim>\<open>enabled_services\<close>, \<^verbatim>\<open>for_user\<close>) changes the
  state as \<open>populate\<close> does.
\<close>

inductive reachable :: "registry \<Rightarrow> bool" where
  r_new: "distinct (map avatar_service_id defaults) \<Longrightarrow> reachable (new_registry defaults cfg)"
| r_siteconfig: "reachable r \<Longrightarrow> reachable (r\<lparr>siteconfig := cfg\<rparr>)"
| r_populate: "reachable r \<Longrightarrow> reachable (snd (populate r))"
| r_save: "reachable r \<Longrightarrow> reachable (save r)"
| r_register: "reachable r \<Longrightarrow> reachable (snd (register item r))"
| r_unregister: "reachable r \<Longrightarrow> reachable (snd (unregister item r))"
| r_enable_service: "reachable r \<Longrightarrow> reachable (snd (enable_service sid flag r))"
| r_disable_service: "reachable r \<Longrightarrow> reachable (snd (disable_service sid flag r))"
| r_set_default_service: "reachable r \<Longrightarrow> reachable (snd (set_default_service svc flag r))"
| r_set_enabled_services: "reachable r \<Longrightarrow> reachable (snd (set_enabled_services services r))"

text \<open>Every entry is indexed under its own id.\<close>

definition catalog_ok :: "registry \<Rightarrow> bool" where
  "catalog_ok r = (\<forall>k s. priv_registry r k = Some s \<longrightarrow> avatar_service_id s = k)"

text \<open>The default service id is \<open>None\<close> or an enabled id.\<close>

definition default_enabled :: "registry \<Rightarrow> bool" where
  "default_enabled r =
     (case priv_default_service_id r of
        None \<Rightarrow> True
      | Some d \<Rightarrow> d \<in> set (priv_enabled_services r))"

definition reg_inv :: "registry \<Rightarrow> bool" where
  "reg_inv r =
     (catalog_ok r \<and>
      set (priv_enabled_services r) \<subseteq> dom (priv_registry r) \<and>
      default_enabled r \<and>
      (\<not> priv_populated r \<longrightarrow>
         priv_registry r = Map.empty \<and>
         distinct (map avatar_service_id (default_avatar_service_classes r))))"

text \<open>The invariant at a populated registry.\<close>

definition pinv :: "registry \<Rightarrow> bool" where
  "pinv r = (reg_inv r \<and> priv_populated r)"

subsection \<open>A concrete registry\<close>

text \<open>
  A registry with two default services, populated from a site configuration that
  enables the first, names it as the default and also lists an id that no service has.
\<close>

definition gravatar :: service where
  "gravatar = \<lparr>obj_id = 1, avatar_service_id = ''gravatar''\<rparr>"

definition file_upload :: service where
  "file_upload = \<lparr>obj_id = 2, avatar_service_id = ''file-upload''\<rparr>"

definition example_siteconfig :: site_configuration where
  "example_siteconfig =
     \<lparr>avatars_enabled_services = Some [''gravatar'', ''stale''],
      avatars_default_service = Some ''gravatar'', saves = 0\<rparr>"

definition example_registry :: registry where
  "example_registry = snd (populate (new_registry [gravatar, file_upload] example_siteconfig))"

text \<open>
  Two services that are not registered there: one whose id no registered service
  has, and a second object with the id of a registered service.
\<close>

definition unknown_service :: service where
  "unknown_service = \<lparr>obj_id = 3, avatar_service_id = ''unknown''\<rparr>"

definition gravatar_copy :: service where
  "gravatar_copy = \<lparr>obj_id = 9, avatar_service_id = ''gravatar''\<rparr>"

subsection \<open>The resolution order of \<^verbatim>\<open>for_user\<close>, as the specification words it\<close>

text \<open>
  An id is eligible when it is given, registered and enabled. The result is the service
  of the requested id if that is eligible, else the service of the user's id if that is
  eligible, else the default service, which may be \<open>None\<close>.
\<close>

definition eligible :: "string option \<Rightarrow> registry \<Rightarrow> bool" where
  "eligible sid r =
     (case sid of
        None \<Rightarrow> False
      | Some i \<Rightarrow> priv_registry r i \<noteq> None \<and> i \<in> set (priv_enabled_services r))"

definition service_of :: "string option \<Rightarrow> registry \<Rightarrow> service option" where
  "service_of sid r = (case sid of None \<Rightarrow> None | Some i \<Rightarrow> priv_registry r i)"

definition for_user_spec :: "string option \<Rightarrow> string option \<Rightarrow> registry \<Rightarrow> service option" where
  "for_user_spec user_service_id service_id r =
     (if eligible service_id r then service_of service_id r
      else if eligible user_service_id r then service_of user_service_id r
      else service_of (priv_default_service_id r) r)"

section \<open>The counter field (djblets/db/fields/counter_field.py)\<close>

subsection \<open>The storage engine\<close>

text \<open>
  The counter field talks to the database through Django's query sets and
  \<^verbatim>\<open>Model.save\<close>. Django is not part of this repository; what follows is the model of
  it that the theorems rest on. A table maps primary keys to rows, a row maps column
  names to nullable integers, and every statement sent to the database is appended to
  \<open>queries\<close>. A query expression (\<^verbatim>\<open>QueryExpressionType\<close>) is evaluated by the database
  on the row being written, with SQL's rule that arithmetic on \<^verbatim>\<open>NULL\<close> gives
  \<^verbatim>\<open>NULL\<close>. Python integers are unbounded; the range of the database column is not
  modelled.
\<close>

datatype expr =
    F string
  | Value "int option"
  | CombinedAdd expr expr
  | CombinedSub expr expr

type_synonym row = "string \<Rightarrow> int option"

fun eval_expr :: "row \<Rightarrow> expr \<Rightarrow> int option" where
  "eval_expr row (F c) = row c"
| "eval_expr row (Value v) = v"
| "eval_expr row (CombinedAdd a b) =
     (case (eval_expr row a, eval_expr row b) of
        (Some x, Some y) \<Rightarrow> Some (x + y)
      | _ \<Rightarrow> None)"
| "eval_expr row (CombinedSub a b) =
     (case (eval_expr row a, eval_expr row b) of
        (Some x, Some y) \<Rightarrow> Some (x - y)
      | _ \<Rightarrow> None)"

text \<open>
  A query set is all objects of the model or \<^verbatim>\<open>objects.filter(pk=...)\<close>. The three
  statements are those of the specification's storage engine boundary:
  \<^verbatim>\<open>queryset.update\<close>, the read \<^verbatim>\<open>queryset.values(...)[0]\<close>, and the update of
  named columns that \<^verbatim>\<open>Model.save\<close> issues.
\<close>

datatype queryset = AllObjects | FilterPk "int option"

datatype query =
    QUpdate queryset "(string \<times> expr) list"
  | QValues queryset "string list"
  | QExists queryset
  | QSave int "(string \<times> expr) list"

record database =
  rows :: "int \<rightharpoonup> row"
  queries :: "query list"

fun qs_matches :: "queryset \<Rightarrow> int \<Rightarrow> bool" where
  "qs_matches AllObjects k = True"
| "qs_matches (FilterPk p) k = (p = Some k)"

definition assign :: "row \<Rightarrow> (string \<times> expr) list \<Rightarrow> row" where
  "assign row assignments =
     (\<lambda>c. case map_of assignments c of None \<Rightarrow> row c | Some e \<Rightarrow> eval_expr row e)"

definition queryset_update :: "queryset \<Rightarrow> (string \<times> expr) list \<Rightarrow> database \<Rightarrow> database" where
  "queryset_update qs assignments d =
     d\<lparr>rows := (\<lambda>k. case rows d k of
                      None \<Rightarrow> None
                    | Some row \<Rightarrow> Some (if qs_matches qs k then assign row assignments else row)),
       queries := queries d @ [QUpdate qs assignments]\<rparr>"

definition pk_row :: "int option \<Rightarrow> database \<Rightarrow> row option" where
  "pk_row p d = (case p of None \<Rightarrow> None | Some k \<Rightarrow> rows d k)"

subsection \<open>Instances, fields and the state\<close>

text \<open>
  The value of an attribute of a model instance is \<^verbatim>\<open>None\<close>, an integer or a query
  expression. \<open>py_id\<close> is \<^verbatim>\<open>id(model_instance)\<close>; \<open>model_fields\<close> are the concrete
  fields of the instance's model class.
\<close>

datatype pyvalue = PyInt int | PyExpr expr

record field_desc =
  field_attname :: string
  is_CounterField :: bool

record model_instance =
  py_id :: nat
  pk :: "int option"
  model_fields :: "field_desc list"
  attrs :: "string \<Rightarrow> pyvalue option"

datatype py_error = IndexError | KeyError | ValueError | DatabaseError

text \<open>
  What the methods change besides the instance: the dictionary \<^verbatim>\<open>_locks\<close> of the
  field and the database. \<open>initializer_calls\<close> records, for the theorems only, the
  instances the initializer function was called with.
\<close>

record counter_state =
  priv_locks :: "nat \<rightharpoonup> nat"
  db :: database
  initializer_calls :: "nat list"

text \<open>
  The initializer of a field: none, a query expression, or a callable. A callable is
  any Python function of the instance. Of one run of it the field sees two things: the
  objects of the model that are loaded or constructed while it runs, for each of which
  Django fires \<^verbatim>\<open>post_init\<close>, and whether the run ends by raising or by returning a
  value. Both may depend on the instance and on the state the run finds, the locks of
  the field included. A loaded object with the \<open>py_id\<close> of the instance is that very
  Python object; any other is a different object, which may have been built from the
  same row.
\<close>

type_synonym behaviour = "model_instance list \<times> (py_error + pyvalue option)"

datatype initializer =
    NoInitializer
  | ExprInitializer expr
  | CallableInitializer "model_instance \<Rightarrow> counter_state \<Rightarrow> behaviour"

record counter_field =
  attname :: string
  priv_initializer :: initializer

text \<open>
  An outcome is the exception raised or a normal return, with the instance and the
  state as the call left them: Python mutates both in place, also when it raises.
\<close>

type_synonym outcome = "(py_error + unit) \<times> model_instance \<times> counter_state"

definition setattr :: "model_instance \<Rightarrow> string \<Rightarrow> pyvalue option \<Rightarrow> model_instance" where
  "setattr inst a v = inst\<lparr>attrs := (attrs inst)(a := v)\<rparr>"

text \<open>Python's truth value of \<^verbatim>\<open>model_instance.pk\<close> and of the initializer.\<close>

definition pk_truthy :: "int option \<Rightarrow> bool" where
  "pk_truthy p = (case p of None \<Rightarrow> False | Some k \<Rightarrow> k \<noteq> 0)"

fun initializer_truthy :: "initializer \<Rightarrow> bool" where
  "initializer_truthy NoInitializer = False"
| "initializer_truthy (ExprInitializer e) = True"
| "initializer_truthy (CallableInitializer b) = True"

fun callable :: "initializer \<Rightarrow> bool" where
  "callable (CallableInitializer b) = True"
| "callable i = False"

subsection \<open>Increment, decrement and reload\<close>

definition priv_reload_model_instance :: "model_instance \<Rightarrow> string list \<Rightarrow> counter_state \<Rightarrow> outcome" where
  "priv_reload_model_instance inst attnames st =
     (let st1 = st\<lparr>db := (db st)\<lparr>queries := queries (db st) @ [QValues (FilterPk (pk inst)) attnames]\<rparr>\<rparr>
      in case pk_row (pk inst) (db st) of
           None \<Rightarrow> (Inl IndexError, inst, st1)
         | Some row \<Rightarrow>
             (Inr (), fold (\<lambda>a i. setattr i a (map_option PyInt (row a))) attnames inst, st1))"

definition increment :: "counter_field \<Rightarrow> queryset \<Rightarrow> int \<Rightarrow> counter_state \<Rightarrow> counter_state" where
  "increment fld qs increment_by st =
     st\<lparr>db := queryset_update qs
                [(attname fld, CombinedAdd (F (attname fld)) (Value (Some increment_by)))] (db st)\<rparr>"

definition decrement :: "counter_field \<Rightarrow> queryset \<Rightarrow> int \<Rightarrow> counter_state \<Rightarrow> counter_state" where
  "decrement fld qs decrement_by st =
     st\<lparr>db := queryset_update qs
                [(attname fld, CombinedSub (F (attname fld)) (Value (Some decrement_by)))] (db st)\<rparr>"

definition priv_reload :: "counter_field \<Rightarrow> model_instance \<Rightarrow> counter_state \<Rightarrow> outcome" where
  "priv_reload fld inst st = priv_reload_model_instance inst [attname fld] st"

definition priv_increment :: "counter_field \<Rightarrow> model_instance \<Rightarrow> bool \<Rightarrow> int \<Rightarrow> counter_state \<Rightarrow> outcome" where
  "priv_increment fld inst reload_object increment_by st =
     (if increment_by \<noteq> 0
      then let st1 = increment fld (FilterPk (pk inst)) increment_by st
           in if reload_object then priv_reload fld inst st1 else (Inr (), inst, st1)
      else (Inr (), inst, st))"

definition priv_decrement :: "counter_field \<Rightarrow> model_instance \<Rightarrow> bool \<Rightarrow> int \<Rightarrow> counter_state \<Rightarrow> outcome" where
  "priv_decrement fld inst reload_object decrement_by st =
     (if decrement_by \<noteq> 0
      then let st1 = decrement fld (FilterPk (pk inst)) decrement_by st
           in if reload_object then priv_reload fld inst st1 else (Inr (), inst, st1)
      else (Inr (), inst, st))"

subsection \<open>Saving an instance\<close>

text \<open>
  \<^verbatim>\<open>Model._do_update\<close> of Django, which \<^verbatim>\<open>_model_do_update\<close> ends in: with no
  values it reports whether the row can be taken as updated, otherwise it updates the
  named columns of the row with the primary key and reports whether such a row exists.
\<close>

fun to_expr :: "pyvalue option \<Rightarrow> expr" where
  "to_expr None = Value None"
| "to_expr (Some (PyInt n)) = Value (Some n)"
| "to_expr (Some (PyExpr e)) = e"

definition django_do_update ::
  "int \<Rightarrow> (field_desc \<times> pyvalue option) list \<Rightarrow> string list option \<Rightarrow> database \<Rightarrow> bool \<times> database" where
  "django_do_update pk_val vals update_fields d =
     (if vals = []
      then (if update_fields \<noteq> None then (True, d)
            else (rows d pk_val \<noteq> None, d\<lparr>queries := queries d @ [QExists (FilterPk (Some pk_val))]\<rparr>))
      else
        let assignments = map (\<lambda>(f, v). (field_attname f, to_expr v)) vals
        in (rows d pk_val \<noteq> None,
            d\<lparr>rows := (case rows d pk_val of
                         None \<Rightarrow> rows d
                       | Some row \<Rightarrow> (rows d)(pk_val \<mapsto> assign row assignments)),
              queries := queries d @ [QSave pk_val assignments]\<rparr>))"

text \<open>
  \<^verbatim>\<open>_model_do_update\<close> drops the counter fields from the values to be saved, unless
  the value is \<^verbatim>\<open>None\<close> or the field is named in \<^verbatim>\<open>update_fields\<close>.
\<close>

definition priv_model_do_update ::
  "int \<Rightarrow> (field_desc \<times> pyvalue option) list \<Rightarrow> string list option \<Rightarrow> database \<Rightarrow> bool \<times> database" where
  "priv_model_do_update pk_val vals update_fields d =
     django_do_update pk_val
       (filter (\<lambda>(f, v). \<not> is_CounterField f \<or> v = None \<or>
                  (case update_fields of
                     None \<Rightarrow> False
                   | Some names \<Rightarrow> names \<noteq> [] \<and> field_attname f \<in> set names)) vals)
       update_fields d"

text \<open>
  \<^verbatim>\<open>Model.save(update_fields=names)\<close> of Django: nothing for an empty list,
  \<^verbatim>\<open>ValueError\<close> for a name that is no field of the model or an instance without
  primary key; otherwise the values of the named fields go to \<^verbatim>\<open>_do_update\<close>, which
  the counter field has replaced by \<^verbatim>\<open>_model_do_update\<close>, and \<^verbatim>\<open>DatabaseError\<close> is
  raised when no row was updated.
\<close>

definition model_save :: "model_instance \<Rightarrow> string list \<Rightarrow> counter_state \<Rightarrow> outcome" where
  "model_save inst names st =
     (if names = [] then (Inr (), inst, st)
      else if \<not> set names \<subseteq> field_attname ` set (model_fields inst) then (Inl ValueError, inst, st)
      else
        (case pk inst of
           None \<Rightarrow> (Inl ValueError, inst, st)
         | Some pk_val \<Rightarrow>
             let vals = map (\<lambda>f. (f, attrs inst (field_attname f)))
                          (filter (\<lambda>f. field_attname f \<in> set names) (model_fields inst));
                 (updated, d) = priv_model_do_update pk_val vals (Some names) (db st)
             in if updated then (Inr (), inst, st\<lparr>db := d\<rparr>)
                else (Inl DatabaseError, inst, st\<lparr>db := d\<rparr>)))"

subsection \<open>Initialization\<close>

text \<open>
  \<^verbatim>\<open>_do_post_init\<close> and \<^verbatim>\<open>_post_init\<close>. The method \<^verbatim>\<open>reinit_<name>\<close> that
  \<^verbatim>\<open>_do_post_init\<close> looks up on the instance is the argument \<open>reinit\<close>. The signal
  always passes the instance, so the test \<^verbatim>\<open>instance is not None\<close> holds. A
  result \<open>None\<close> means that the recursion did not come to an end within the given depth.
\<close>

definition priv_do_post_init ::
  "(counter_field \<Rightarrow> model_instance \<Rightarrow> counter_state \<Rightarrow> outcome option) \<Rightarrow>
   counter_field \<Rightarrow> model_instance \<Rightarrow> counter_state \<Rightarrow> outcome option" where
  "priv_do_post_init reinit fld inst st =
     (case attrs inst (attname fld) of
        None \<Rightarrow> reinit fld inst st
      | Some v \<Rightarrow> Some (Inr (), inst, st))"

definition priv_post_init ::
  "(counter_field \<Rightarrow> model_instance \<Rightarrow> counter_state \<Rightarrow> outcome option) \<Rightarrow>
   counter_field \<Rightarrow> model_instance \<Rightarrow> counter_state \<Rightarrow> outcome option" where
  "priv_post_init reinit fld inst st =
     (if priv_locks st (py_id inst) = None
      then priv_do_post_init reinit fld inst st
      else Some (Inr (), inst, st))"

text \<open>
  The loads that happen while a callable initializer runs, in their order. The signal
  handler runs on the instance itself where the loaded object is the instance, and on
  the other object otherwise; an exception of the handler ends the run.
\<close>

fun nested_loads ::
  "model_instance list \<Rightarrow> (model_instance \<Rightarrow> counter_state \<Rightarrow> outcome option) \<Rightarrow>
   model_instance \<Rightarrow> counter_state \<Rightarrow> outcome option" where
  "nested_loads [] post inst st = Some (Inr (), inst, st)"
| "nested_loads (obj # objs) post inst st =
     (if py_id obj = py_id inst
      then (case post inst st of
              None \<Rightarrow> None
            | Some (Inl e, inst1, st1) \<Rightarrow> Some (Inl e, inst1, st1)
            | Some (Inr u, inst1, st1) \<Rightarrow> nested_loads objs post inst1 st1)
      else (case post obj st of
              None \<Rightarrow> None
            | Some (Inl e, obj1, st1) \<Rightarrow> Some (Inl e, inst, st1)
            | Some (Inr u, obj1, st1) \<Rightarrow> nested_loads objs post inst st1))"

text \<open>
  The call \<^verbatim>\<open>self._initializer(model_instance)\<close> of a callable initializer: its
  loads, then its exception or its value.
\<close>

definition call_initializer ::
  "(counter_field \<Rightarrow> model_instance \<Rightarrow> counter_state \<Rightarrow> outcome option) \<Rightarrow>
   counter_field \<Rightarrow> (model_instance \<Rightarrow> counter_state \<Rightarrow> behaviour) \<Rightarrow>
   model_instance \<Rightarrow> counter_state \<Rightarrow>
   ((py_error + pyvalue option) \<times> model_instance \<times> counter_state) option" where
  "call_initializer reinit fld b inst st =
     (let st0 = st\<lparr>initializer_calls := initializer_calls st @ [py_id inst]\<rparr>
      in case nested_loads (fst (b inst st0)) (priv_post_init reinit fld) inst st0 of
           None \<Rightarrow> None
         | Some (Inl e, inst1, st1) \<Rightarrow> Some (Inl e, inst1, st1)
         | Some (Inr u, inst1, st1) \<Rightarrow> Some (snd (b inst st0), inst1, st1))"

text \<open>
  The first half of \<^verbatim>\<open>_reinit\<close>: the value is \<^verbatim>\<open>0\<close>, the initializer itself if
  it is a query expression, or what the callable returns, called with the lock of
  the instance set and followed by the deletion of the lock. There is no
  \<^verbatim>\<open>try\<close> around the call: when the callable raises, the deletion is not reached.
\<close>

definition initial_value ::
  "(counter_field \<Rightarrow> model_instance \<Rightarrow> counter_state \<Rightarrow> outcome option) \<Rightarrow>
   counter_field \<Rightarrow> model_instance \<Rightarrow> counter_state \<Rightarrow>
   ((py_error + pyvalue option) \<times> model_instance \<times> counter_state) option" where
  "initial_value reinit fld inst st =
     (case priv_initializer fld of
        NoInitializer \<Rightarrow> Some (Inr (Some (PyInt 0)), inst, st)
      | ExprInitializer e \<Rightarrow> Some (Inr (Some (PyExpr e)), inst, st)
      | CallableInitializer b \<Rightarrow>
          (case call_initializer reinit fld b inst
                  (st\<lparr>priv_locks := (priv_locks st)(py_id inst \<mapsto> 1)\<rparr>) of
             None \<Rightarrow> None
           | Some (Inl e, inst1, st1) \<Rightarrow> Some (Inl e, inst1, st1)
           | Some (Inr v, inst1, st1) \<Rightarrow>
               (case priv_locks st1 (py_id inst) of
                  None \<Rightarrow> Some (Inl KeyError, inst1, st1)
                | Some l \<Rightarrow>
                    Some (Inr v, inst1, st1\<lparr>priv_locks := (priv_locks st1)(py_id inst := None)\<rparr>))))"

text \<open>The second half of \<^verbatim>\<open>_reinit\<close>, from \<^verbatim>\<open>if value is not None\<close> on.\<close>

fun is_expr_value :: "pyvalue \<Rightarrow> bool" where
  "is_expr_value (PyExpr e) = True"
| "is_expr_value (PyInt n) = False"

definition store_value :: "counter_field \<Rightarrow> pyvalue option \<Rightarrow> model_instance \<Rightarrow> counter_state \<Rightarrow> outcome" where
  "store_value fld val inst st =
     (case val of
        None \<Rightarrow> (Inr (), inst, st)
      | Some v0 \<Rightarrow>
          let v = (if is_expr_value v0 \<and> \<not> pk_truthy (pk inst) then PyInt 0 else v0)
          in if is_expr_value v
             then priv_reload_model_instance inst [attname fld]
                    (st\<lparr>db := queryset_update (FilterPk (pk inst))
                                [(attname fld, to_expr (Some v))] (db st)\<rparr>)
             else
               let inst1 = setattr inst (attname fld) (Some v)
               in if pk_truthy (pk inst) then model_save inst1 [attname fld] st
                  else (Inr (), inst1, st))"

primrec priv_reinit :: "nat \<Rightarrow> counter_field \<Rightarrow> model_instance \<Rightarrow> counter_state \<Rightarrow> outcome option" where
  "priv_reinit 0 fld inst st = None"
| "priv_reinit (Suc n) fld inst st =
     (if \<not> (pk_truthy (pk inst) \<or> initializer_truthy (priv_initializer fld) \<or>
             callable (priv_initializer fld))
      then Some (Inr (), inst, st)
      else
        (case initial_value (priv_reinit n) fld inst st of
           None \<Rightarrow> None
         | Some (Inl e, inst1, st1) \<Rightarrow> Some (Inl e, inst1, st1)
         | Some (Inr val, inst1, st1) \<Rightarrow> Some (store_value fld val inst1 st1)))"

text \<open>The signal handler with the method it finds on the instance.\<close>

definition post_init :: "nat \<Rightarrow> counter_field \<Rightarrow> model_instance \<Rightarrow> counter_state \<Rightarrow> outcome option" where
  "post_init n = priv_post_init (priv_reinit n)"

text \<open>
  The state a callable initializer finds when \<^verbatim>\<open>_reinit\<close> calls it on an instance:
  the lock of that object is set, and the call is on record.
\<close>

definition observed :: "model_instance \<Rightarrow> counter_state \<Rightarrow> counter_state" where
  "observed inst st =
     st\<lparr>priv_locks := (priv_locks st)(py_id inst \<mapsto> 1),
        initializer_calls := initializer_calls st @ [py_id inst]\<rparr>"

subsection \<open>What an arithmetic update does to a row\<close>

text \<open>The column \<open>c\<close> of the row grows by \<open>delta\<close>; a \<^verbatim>\<open>NULL\<close> stays \<^verbatim>\<open>NULL\<close>.\<close>

definition plus_delta :: "string \<Rightarrow> int \<Rightarrow> row \<Rightarrow> row" where
  "plus_delta c delta = (\<lambda>row. row(c := map_option (\<lambda>v. v + delta) (row c)))"

subsection \<open>A concrete model\<close>

text \<open>
  A model with one counter field \<^verbatim>\<open>counter\<close>, whose table holds the row with primary
  key 42 and counter 10; two Python objects for that row, an object for it whose counter
  is not set, and an object that was never saved. A second table state holds the same
  row with the counter still \<^verbatim>\<open>NULL\<close>.
\<close>

definition counter_desc :: field_desc where
  "counter_desc = \<lparr>field_attname = ''counter'', is_CounterField = True\<rparr>"

definition example_instance :: model_instance where
  "example_instance =
     \<lparr>py_id = 1, pk = Some 42, model_fields = [counter_desc],
      attrs = (\<lambda>a. None)(''counter'' := Some (PyInt 10))\<rparr>"

definition other_instance :: model_instance where
  "other_instance = example_instance\<lparr>py_id := 2\<rparr>"

definition unset_instance :: model_instance where
  "unset_instance = example_instance\<lparr>attrs := (\<lambda>a. None)\<rparr>"

definition unsaved_instance :: model_instance where
  "unsaved_instance = \<lparr>py_id = 3, pk = None, model_fields = [counter_desc], attrs = (\<lambda>a. None)\<rparr>"

definition example_state :: counter_state where
  "example_state =
     \<lparr>priv_locks = Map.empty,
      db = \<lparr>rows = [42 \<mapsto> (\<lambda>c. None)(''counter'' := Some 10)], queries = []\<rparr>,
      initializer_calls = []\<rparr>"

definition plain_field :: counter_field where
  "plain_field = \<lparr>attname = ''counter'', priv_initializer = NoInitializer\<rparr>"

definition expr_field :: counter_field where
  "expr_field = \<lparr>attname = ''counter'', priv_initializer = ExprInitializer (F ''other'')\<rparr>"






section \<open>Properties of the registry\<close>


lemma then_do_simps [simp]:
  "then_do (Inl e, r) f = (Inl e, r)"
  "then_do (Inr x, r) f = f x r"
  by (simp_all add: then_do_def)

lemma snd_then_do_cases:
  "P (snd m) \<Longrightarrow> (\<And>x r. m = (Inr x, r) \<Longrightarrow> P (snd (f x r))) \<Longrightarrow> P (snd (then_do m f))"
  by (cases m; cases "fst m") (auto simp: then_do_def)

lemma save_fields [simp]:
  "priv_populated (save r) = priv_populated r"
  "priv_registry (save r) = priv_registry r"
  "priv_enabled_services (save r) = priv_enabled_services r"
  "priv_default_service_id (save r) = priv_default_service_id r"
  "default_avatar_service_classes (save r) = default_avatar_service_classes r"
  "logging (save r) = logging r"
  by (simp_all add: save_def)

lemma save_if_fields [simp]:
  "priv_populated (save_if b r) = priv_populated r"
  "priv_registry (save_if b r) = priv_registry r"
  "priv_enabled_services (save_if b r) = priv_enabled_services r"
  "priv_default_service_id (save_if b r) = priv_default_service_id r"
  "default_avatar_service_classes (save_if b r) = default_avatar_service_classes r"
  "logging (save_if b r) = logging r"
  by (simp_all add: save_if_def)

lemma log_error_fields [simp]:
  "priv_populated (log_error k v r) = priv_populated r"
  "priv_registry (log_error k v r) = priv_registry r"
  "priv_enabled_services (log_error k v r) = priv_enabled_services r"
  "priv_default_service_id (log_error k v r) = priv_default_service_id r"
  "default_avatar_service_classes (log_error k v r) = default_avatar_service_classes r"
  "siteconfig (log_error k v r) = siteconfig r"
  by (simp_all add: log_error_def)

lemma reg_inv_cong:
  "priv_populated r' = priv_populated r \<Longrightarrow> priv_registry r' = priv_registry r \<Longrightarrow>
   priv_enabled_services r' = priv_enabled_services r \<Longrightarrow>
   priv_default_service_id r' = priv_default_service_id r \<Longrightarrow>
   default_avatar_service_classes r' = default_avatar_service_classes r \<Longrightarrow>
   reg_inv r' = reg_inv r"
  by (simp add: reg_inv_def catalog_ok_def default_enabled_def split: option.splits)

lemma reg_inv_save [simp]: "reg_inv (save r) = reg_inv r"
  by (rule reg_inv_cong) simp_all

lemma reg_inv_save_if [simp]: "reg_inv (save_if b r) = reg_inv r"
  by (rule reg_inv_cong) simp_all

lemma reg_inv_log_error [simp]: "reg_inv (log_error k v r) = reg_inv r"
  by (rule reg_inv_cong) simp_all

lemma reg_inv_siteconfig [simp]: "reg_inv (r\<lparr>siteconfig := c\<rparr>) = reg_inv r"
  by (rule reg_inv_cong) simp_all

lemma populate_populated: "priv_populated r \<Longrightarrow> populate r = (Inr (), r)"
  by (simp add: populate_def)

lemma has_service_iff:
  "catalog_ok r \<Longrightarrow> has_service_populated sid r = (priv_registry r sid \<noteq> None)"
  by (auto simp: has_service_populated_def get_avatar_service_populated_def registry_get_def
      registry_contains_def catalog_ok_def split: option.splits)


lemma registry_register_inv:
  "reg_inv r \<Longrightarrow> priv_populated r \<Longrightarrow>
   reg_inv (snd (registry_register item r)) \<and> priv_populated (snd (registry_register item r))"
  by (auto simp: registry_register_def reg_inv_def catalog_ok_def default_enabled_def
      split: option.splits)

lemma registry_unregister_inv:
  "reg_inv r \<Longrightarrow> priv_populated r \<Longrightarrow> avatar_service_id item \<notin> set (priv_enabled_services r) \<Longrightarrow>
   reg_inv (snd (registry_unregister item r)) \<and> priv_populated (snd (registry_unregister item r))"
  by (auto simp: registry_unregister_def reg_inv_def catalog_ok_def default_enabled_def
      split: option.splits)

lemma set_default_service_populated_inv:
  "reg_inv r \<Longrightarrow> priv_populated r \<Longrightarrow>
   reg_inv (snd (set_default_service_populated svc flag r)) \<and>
   priv_populated (snd (set_default_service_populated svc flag r))"
  by (auto simp: set_default_service_populated_def reg_inv_def catalog_ok_def default_enabled_def
      is_enabled_populated_def split: option.splits)

lemma enable_service_populated_inv:
  "reg_inv r \<Longrightarrow> priv_populated r \<Longrightarrow>
   reg_inv (snd (enable_service_populated sid flag r)) \<and>
   priv_populated (snd (enable_service_populated sid flag r))"
  by (auto simp: enable_service_populated_def reg_inv_def has_service_iff default_enabled_def
      catalog_ok_def split: option.splits)

lemma disable_service_populated_inv:
  "reg_inv r \<Longrightarrow> priv_populated r \<Longrightarrow>
   reg_inv (snd (disable_service_populated sid flag r)) \<and>
   priv_populated (snd (disable_service_populated sid flag r))"
  by (auto simp: disable_service_populated_def reg_inv_def has_service_iff default_enabled_def
      catalog_ok_def default_service_populated_def get_avatar_service_populated_def
      registry_get_def set_default_service_populated_def Let_def
      split: option.splits)



lemma register_all_result:
  "distinct (map avatar_service_id items) \<Longrightarrow>
   \<forall>i \<in> set items. priv_registry r (avatar_service_id i) = None \<Longrightarrow>
   register_all items r =
     (Inr (), r\<lparr>priv_registry := priv_registry r ++ map_of (map (\<lambda>s. (avatar_service_id s, s)) items)\<rparr>)"
proof (induction items arbitrary: r)
  case Nil
  then show ?case by simp
next
  case (Cons item items)
  let ?r1 = "r\<lparr>priv_registry := (priv_registry r)(avatar_service_id item \<mapsto> item)\<rparr>"
  have step: "registry_register item r = (Inr (), ?r1)"
    using Cons.prems by (simp add: registry_register_def)
  have ne: "avatar_service_id i \<noteq> avatar_service_id item" if "i \<in> set items" for i
    using that Cons.prems(1) by (metis distinct.simps(2) image_eqI list.simps(9) set_map)
  have free: "\<forall>i \<in> set items. priv_registry ?r1 (avatar_service_id i) = None"
    using Cons.prems(2) ne by simp
  have dist: "distinct (map avatar_service_id items)"
    using Cons.prems by simp
  have notin: "avatar_service_id item \<notin> dom (map_of (map (\<lambda>s. (avatar_service_id s, s)) items))"
  proof -
    have "fst ` set (map (\<lambda>s. (avatar_service_id s, s)) items) = avatar_service_id ` set items"
      by force
    then show ?thesis
      using Cons.prems by (simp add: dom_map_of_conv_image_fst)
  qed
  have maps: "(priv_registry r)(avatar_service_id item \<mapsto> item) ++ map_of (map (\<lambda>s. (avatar_service_id s, s)) items)
      = priv_registry r ++ map_of (map (\<lambda>s. (avatar_service_id s, s)) (item # items))"
    using notin by (auto simp: map_add_def fun_eq_iff split: option.splits)
  have a: "register_all (item # items) r = register_all items ?r1"
    by (simp add: step)
  have b: "?r1\<lparr>priv_registry := Z\<rparr> = r\<lparr>priv_registry := Z\<rparr>" for Z
    by simp
  have c: "priv_registry ?r1 = (priv_registry r)(avatar_service_id item \<mapsto> item)"
    by simp
  show ?case
    unfolding a Cons.IH [OF dist free] b c maps by (rule refl)
qed

lemma map_of_ids:
  "map_of (map (\<lambda>s. (avatar_service_id s, s)) items) k = Some s \<Longrightarrow> avatar_service_id s = k"
  by (induction items) (auto split: if_splits)

lemma registry_populate_new:
  "reg_inv r \<Longrightarrow> \<not> priv_populated r \<Longrightarrow>
   registry_populate r =
     (Inr (), r\<lparr>priv_populated := True,
                priv_registry := map_of (map (\<lambda>s. (avatar_service_id s, s)) (default_avatar_service_classes r))\<rparr>)"
  using register_all_result [of "default_avatar_service_classes r" "r\<lparr>priv_populated := True\<rparr>"]
  by (simp add: registry_populate_def reg_inv_def)

lemma registry_populate_pinv:
  "reg_inv r \<Longrightarrow> \<not> priv_populated r \<Longrightarrow> pinv (snd (registry_populate r))"
  by (auto simp: registry_populate_new pinv_def reg_inv_def catalog_ok_def default_enabled_def
      dest: map_of_ids split: option.splits)

lemma enable_persisted_result:
  "catalog_ok r \<Longrightarrow>
   enable_persisted sids r =
     (Inr (), r\<lparr>priv_enabled_services :=
                  fold List.insert (filter (\<lambda>s. priv_registry r s \<noteq> None) sids) (priv_enabled_services r),
                logging := logging r @
                  map (Pair UNKNOWN_SERVICE_ENABLED) (filter (\<lambda>s. priv_registry r s = None) sids)\<rparr>)"
proof (induction sids arbitrary: r)
  case Nil
  then show ?case by simp
next
  case (Cons sid sids)
  show ?case
  proof (cases "priv_registry r sid = None")
    case True
    have c: "catalog_ok (log_error UNKNOWN_SERVICE_ENABLED sid r)"
      using Cons.prems by (simp add: catalog_ok_def)
    show ?thesis
      using True Cons.prems Cons.IH [OF c]
      by (simp add: has_service_iff) (simp add: log_error_def)
  next
    case False
    let ?r1 = "r\<lparr>priv_enabled_services := List.insert sid (priv_enabled_services r)\<rparr>"
    have c: "catalog_ok ?r1"
      using Cons.prems by (simp add: catalog_ok_def)
    show ?thesis
      using False Cons.prems Cons.IH [OF c]
      by (simp add: has_service_iff enable_service_populated_def save_if_def)
  qed
qed

lemma set_fold_insert: "set (fold List.insert xs ys) = set xs \<union> set ys"
  by (induction xs arbitrary: ys) auto

lemma enable_persisted_pinv:
  "pinv r \<Longrightarrow> pinv (snd (enable_persisted sids r))"
  by (auto simp: pinv_def reg_inv_def enable_persisted_result catalog_ok_def default_enabled_def
      set_fold_insert split: option.splits)

lemma populate_default_ok:
  "fst (populate_default d r) = Inr ()"
  by (auto simp: populate_default_def registry_get_def set_default_service_populated_def
      split: option.splits sum.splits prod.splits)

lemma populate_default_pinv:
  "pinv r \<Longrightarrow> pinv (snd (populate_default d r))"
  by (auto simp: populate_default_def registry_get_def set_default_service_populated_def pinv_def
      reg_inv_def catalog_ok_def default_enabled_def is_enabled_populated_def
      split: option.splits sum.splits prod.splits if_splits)


lemma populate_ok: "reg_inv r \<Longrightarrow> fst (populate r) = Inr () \<and> pinv (snd (populate r))"
proof (cases "priv_populated r")
  case True
  assume "reg_inv r"
  with True show ?thesis by (simp add: populate_populated pinv_def)
next
  case False
  assume inv: "reg_inv r"
  obtain r1 where r1: "registry_populate r = (Inr (), r1)"
    using registry_populate_new [OF inv False] by blast
  have p1: "pinv r1"
    using registry_populate_pinv [OF inv False] r1 by simp
  define m2 where "m2 = (case avatars_enabled_services (siteconfig r1) of
                   None \<Rightarrow> (Inr (), r1)
                 | Some sids \<Rightarrow> enable_persisted sids r1)"
  have "\<exists>r2. m2 = (Inr (), r2)"
    using p1 by (cases "avatars_enabled_services (siteconfig r1)")
      (simp_all add: m2_def pinv_def reg_inv_def enable_persisted_result)
  then obtain r2 where r2: "m2 = (Inr (), r2)"
    by blast
  have p2: "pinv r2"
  proof (cases "avatars_enabled_services (siteconfig r1)")
    case None
    then show ?thesis using p1 r2 by (simp add: m2_def)
  next
    case (Some sids)
    then show ?thesis using enable_persisted_pinv [OF p1, of sids] r2 by (simp add: m2_def)
  qed
  define m3 where "m3 = (case avatars_default_service (siteconfig r2) of
                   None \<Rightarrow> (Inr (), r2)
                 | Some d \<Rightarrow> populate_default d r2)"
  have "fst m3 = Inr ()"
    by (cases "avatars_default_service (siteconfig r2)") (simp_all add: m3_def populate_default_ok)
  then obtain r3 where r3: "m3 = (Inr (), r3)"
    by (cases m3) simp
  have p3: "pinv r3"
  proof (cases "avatars_default_service (siteconfig r2)")
    case None
    then show ?thesis using p2 r3 by (simp add: m3_def)
  next
    case (Some d)
    then show ?thesis using populate_default_pinv [OF p2, of d] r3 by (simp add: m3_def)
  qed
  have "populate r = (Inr (), save r3)"
    using False r1 r2 r3 by (simp add: populate_def m2_def m3_def)
  with p3 show ?thesis by (simp add: pinv_def)
qed

lemma after_populate_pinv:
  assumes "reg_inv r" and "\<And>r'. pinv r' \<Longrightarrow> pinv (snd (f r'))"
  shows "pinv (snd (after_populate f r))"
proof -
  obtain r' where "populate r = (Inr (), r')" "pinv r'"
    using populate_ok [OF assms(1)] by (cases "populate r") auto
  then show ?thesis
    using assms(2) by (simp add: after_populate_def)
qed

lemma after_populate_eq:
  "reg_inv r \<Longrightarrow> after_populate f r = f (snd (populate r))"
  using populate_ok [of r] by (cases "populate r") (auto simp: after_populate_def)

lemma disable_each_pinv: "pinv r \<Longrightarrow> pinv (snd (disable_each sids r))"
proof (induction sids arbitrary: r)
  case Nil
  then show ?case by simp
next
  case (Cons sid sids)
  have "pinv (snd (disable_service_populated sid False r))"
    using Cons.prems disable_service_populated_inv by (simp add: pinv_def)
  then show ?case
    using Cons.IH by (cases "disable_service_populated sid False r"; cases "fst (disable_service_populated sid False r)") auto
qed

lemma enable_each_pinv: "pinv r \<Longrightarrow> pinv (snd (enable_each sids r))"
proof (induction sids arbitrary: r)
  case Nil
  then show ?case by simp
next
  case (Cons sid sids)
  have "pinv (snd (enable_service_populated sid False r))"
    using Cons.prems enable_service_populated_inv by (simp add: pinv_def)
  then show ?case
    using Cons.IH by (cases "enable_service_populated sid False r"; cases "fst (enable_service_populated sid False r)") auto
qed

lemma set_default_None:
  "set_default_service_populated None flag r = (Inr (), save_if flag (r\<lparr>priv_default_service_id := None\<rparr>))"
  by (simp add: set_default_service_populated_def)

lemma pinv_save [simp]: "pinv (save r) = pinv r"
  by (simp add: pinv_def)

lemma pinv_save_if [simp]: "pinv (save_if b r) = pinv r"
  by (simp add: pinv_def)

lemma pinv_clear_default: "pinv r \<Longrightarrow> pinv (r\<lparr>priv_default_service_id := None\<rparr>)"
  by (simp add: pinv_def reg_inv_def catalog_ok_def default_enabled_def)

lemma set_enabled_services_populated_pinv:
  assumes "pinv r"
  shows "pinv (snd (set_enabled_services_populated services r))"
proof (cases "check_registered (remdups services) r")
  case (Some e)
  then show ?thesis using assms by (simp add: set_enabled_services_populated_def)
next
  case None
  define new_ids where "new_ids = remdups (map avatar_service_id (remdups services))"
  define m1 where "m1 = disable_each (filter (\<lambda>i. i \<notin> set new_ids) (priv_enabled_services r)) r"
  define en where "en = filter (\<lambda>i. i \<notin> set (priv_enabled_services r)) new_ids"
  define fin where "fin = (\<lambda>r2. case default_service_populated r2 of
             Inl e \<Rightarrow> (Inl e, r2)
           | Inr ds \<Rightarrow>
               then_do
                 (case ds of
                    None \<Rightarrow> (Inr (), r2)
                  | Some d \<Rightarrow>
                      if \<not> is_enabled_populated (avatar_service_id d) r2
                      then set_default_service_populated None True r2
                      else (Inr (), r2))
                 (\<lambda>u r3. (Inr (), save r3)))"
  have eq: "set_enabled_services_populated services r =
      then_do m1 (\<lambda>u r1. then_do (enable_each en r1) (\<lambda>u. fin))"
    using None by (simp add: set_enabled_services_populated_def Let_def m1_def en_def new_ids_def fin_def)
  have p1: "pinv (snd m1)"
    unfolding m1_def by (rule disable_each_pinv [OF assms])
  have pfin: "pinv (snd (fin r2))" if "pinv r2" for r2
    using that pinv_clear_default [OF that]
    by (simp add: fin_def set_default_None split: sum.splits option.splits)
  have p2: "pinv (snd (then_do (enable_each en r1) (\<lambda>u. fin)))" if "pinv r1" for r1
  proof (rule snd_then_do_cases)
    show "pinv (snd (enable_each en r1))"
      by (rule enable_each_pinv [OF that])
  next
    fix x r'
    assume "enable_each en r1 = (Inr x, r')"
    then have "pinv r'"
      using enable_each_pinv [OF that, of en] by simp
    then show "pinv (snd (fin r'))"
      by (rule pfin)
  qed
  show ?thesis
    unfolding eq
  proof (rule snd_then_do_cases)
    show "pinv (snd m1)" by (rule p1)
  next
    fix x r'
    assume "m1 = (Inr x, r')"
    then have "pinv r'" using p1 by simp
    then show "pinv (snd (then_do (enable_each en r') (\<lambda>u. fin)))"
      by (rule p2)
  qed
qed


lemma disable_service_populated_removes:
  "disable_service_populated sid flag r = (Inr u, r') \<Longrightarrow> sid \<notin> set (priv_enabled_services r')"
  by (auto simp: disable_service_populated_def Let_def set_default_None
      split: if_splits sum.splits option.splits)

lemma unregister_pinv:
  assumes "reg_inv r"
  shows "pinv (snd (unregister item r))"
proof -
  let ?r0 = "snd (populate r)"
  let ?m = "disable_service_populated (avatar_service_id item) True ?r0"
  have p0: "pinv ?r0"
    using populate_ok [OF assms] by simp
  have eq: "unregister item r = then_do ?m (\<lambda>u. registry_unregister item)"
    by (simp add: unregister_def disable_service_def after_populate_eq [OF assms])
  have pm: "pinv (snd ?m)"
    using p0 disable_service_populated_inv [of ?r0] by (simp add: pinv_def)
  show ?thesis
    unfolding eq
  proof (rule snd_then_do_cases)
    show "pinv (snd ?m)" by (rule pm)
  next
    fix x r'
    assume m: "?m = (Inr x, r')"
    then have "pinv r'" using pm by simp
    moreover have "avatar_service_id item \<notin> set (priv_enabled_services r')"
      using disable_service_populated_removes [OF m] .
    ultimately show "pinv (snd (registry_unregister item r'))"
      using registry_unregister_inv [of r' item] by (simp add: pinv_def)
  qed
qed

lemma reg_inv_new_registry:
  "distinct (map avatar_service_id defaults) \<Longrightarrow> reg_inv (new_registry defaults cfg)"
  by (simp add: new_registry_def reg_inv_def catalog_ok_def default_enabled_def)

lemma reachable_reg_inv: "reachable r \<Longrightarrow> reg_inv r"
proof (induction rule: reachable.induct)
  case (r_new defaults cfg)
  then show ?case by (rule reg_inv_new_registry)
next
  case (r_siteconfig r cfg)
  then show ?case by simp
next
  case (r_populate r)
  then show ?case using populate_ok [of r] by (simp add: pinv_def)
next
  case (r_save r)
  then show ?case by simp
next
  case (r_register r item)
  have "pinv (snd (after_populate (registry_register item) r))"
    using r_register.IH registry_register_inv by (intro after_populate_pinv) (simp_all add: pinv_def)
  then show ?case by (simp add: register_def pinv_def)
next
  case (r_unregister r item)
  then show ?case using unregister_pinv [of r item] by (simp add: pinv_def)
next
  case (r_enable_service r sid flag)
  have "pinv (snd (after_populate (enable_service_populated sid flag) r))"
    using r_enable_service.IH enable_service_populated_inv
    by (intro after_populate_pinv) (simp_all add: pinv_def)
  then show ?case by (simp add: enable_service_def pinv_def)
next
  case (r_disable_service r sid flag)
  have "pinv (snd (after_populate (disable_service_populated sid flag) r))"
    using r_disable_service.IH disable_service_populated_inv
    by (intro after_populate_pinv) (simp_all add: pinv_def)
  then show ?case by (simp add: disable_service_def pinv_def)
next
  case (r_set_default_service r svc flag)
  have "pinv (snd (after_populate (set_default_service_populated svc flag) r))"
    using r_set_default_service.IH set_default_service_populated_inv
    by (intro after_populate_pinv) (simp_all add: pinv_def)
  then show ?case by (simp add: set_default_service_def pinv_def)
next
  case (r_set_enabled_services r services)
  have "pinv (snd (after_populate (set_enabled_services_populated services) r))"
    using r_set_enabled_services.IH set_enabled_services_populated_pinv
    by (intro after_populate_pinv) simp_all
  then show ?case by (simp add: set_enabled_services_def pinv_def)
qed

lemma reg_inv_default_enabled: "reg_inv r \<Longrightarrow> default_enabled r"
  by (simp add: reg_inv_def)

lemma unpopulated_no_default:
  "reg_inv r \<Longrightarrow> \<not> priv_populated r \<Longrightarrow> priv_default_service_id r = None"
  by (auto simp: reg_inv_def default_enabled_def split: option.splits)

lemma disable_default_populated:
  assumes "pinv r" and "priv_default_service_id r = Some sid"
  shows "fst (disable_service_populated sid flag r) = Inr () \<and>
         priv_default_service_id (snd (disable_service_populated sid flag r)) = None \<and>
         sid \<notin> set (priv_enabled_services (snd (disable_service_populated sid flag r)))"
proof -
  have en: "sid \<in> set (priv_enabled_services r)"
    using assms by (simp add: pinv_def reg_inv_def default_enabled_def)
  then obtain s where s: "priv_registry r sid = Some s"
    using assms(1) by (auto simp: pinv_def reg_inv_def)
  have sid: "avatar_service_id s = sid"
    using assms(1) s by (simp add: pinv_def reg_inv_def catalog_ok_def)
  have has: "has_service_populated sid r"
    using assms(1) s by (simp add: has_service_iff pinv_def reg_inv_def)
  show ?thesis
    using has s sid assms(2)
    by (simp add: disable_service_populated_def Let_def default_service_populated_def
        get_avatar_service_populated_def registry_get_def set_default_None)
qed

text \<open>
  Claim C1. In every reachable state of the registry, and so after each of
  \<^verbatim>\<open>enable_service\<close>, \<^verbatim>\<open>disable_service\<close>, \<^verbatim>\<open>set_default_service\<close>, the setter of
  \<^verbatim>\<open>enabled_services\<close>, \<^verbatim>\<open>unregister\<close> and \<^verbatim>\<open>populate\<close>, whether the call returned or
  raised, the default service id is \<open>None\<close> or one of the enabled ids. Disabling the
  service that is the default returns, clears the default and removes the id from the
  enabled ids in that same call.
\<close>

theorem default_implies_enabled:
  assumes "reachable r"
  shows "default_enabled r \<and>
         default_enabled (snd (enable_service sid flag r)) \<and>
         default_enabled (snd (disable_service sid flag r)) \<and>
         default_enabled (snd (set_default_service svc flag r)) \<and>
         default_enabled (snd (set_enabled_services services r)) \<and>
         default_enabled (snd (unregister item r)) \<and>
         default_enabled (snd (populate r)) \<and>
         (priv_default_service_id r = Some sid \<longrightarrow>
            fst (disable_service sid flag r) = Inr () \<and>
            priv_default_service_id (snd (disable_service sid flag r)) = None \<and>
            sid \<notin> set (priv_enabled_services (snd (disable_service sid flag r))))"
proof -
  have inv: "reg_inv r"
    using assms by (rule reachable_reg_inv)
  have last: "fst (disable_service sid flag r) = Inr () \<and>
            priv_default_service_id (snd (disable_service sid flag r)) = None \<and>
            sid \<notin> set (priv_enabled_services (snd (disable_service sid flag r)))"
    if d: "priv_default_service_id r = Some sid"
  proof -
    have pop: "priv_populated r"
      using unpopulated_no_default [OF inv] d by auto
    then have "disable_service sid flag r = disable_service_populated sid flag r"
      by (simp add: disable_service_def after_populate_def populate_populated)
    then show ?thesis
      using disable_default_populated [of r sid flag] inv pop d by (simp add: pinv_def)
  qed
  show ?thesis
    using inv last
      reachable_reg_inv [OF reachable.r_enable_service [OF assms, of sid flag]]
      reachable_reg_inv [OF reachable.r_disable_service [OF assms, of sid flag]]
      reachable_reg_inv [OF reachable.r_set_default_service [OF assms, of svc flag]]
      reachable_reg_inv [OF reachable.r_set_enabled_services [OF assms, of services]]
      reachable_reg_inv [OF reachable.r_unregister [OF assms, of item]]
      reachable_reg_inv [OF reachable.r_populate [OF assms]]
    by (simp add: reg_inv_default_enabled)
qed






lemma example_registry_eq:
  "example_registry =
     \<lparr>priv_populated = True,
      priv_registry = [''gravatar'' \<mapsto> gravatar, ''file-upload'' \<mapsto> file_upload],
      priv_enabled_services = [''gravatar''],
      priv_default_service_id = Some ''gravatar'',
      default_avatar_service_classes = [gravatar, file_upload],
      siteconfig = \<lparr>avatars_enabled_services = Some [''gravatar''],
                    avatars_default_service = Some ''gravatar'', saves = 2\<rparr>,
      logging = [(UNKNOWN_SERVICE_ENABLED, ''stale'')]\<rparr>"
  by (simp add: example_registry_def populate_def new_registry_def registry_populate_def
      registry_register_def example_siteconfig_def gravatar_def file_upload_def
      has_service_populated_def get_avatar_service_populated_def registry_get_def
      registry_contains_def enable_service_populated_def save_if_def log_error_def
      populate_default_def set_default_service_populated_def is_enabled_populated_def save_def)

lemma reachable_example: "reachable example_registry"
  unfolding example_registry_def
  by (intro reachable.r_populate reachable.r_new) (simp add: gravatar_def file_upload_def)

theorem default_implies_enabled_witness:
  "reachable example_registry \<and>
   priv_default_service_id example_registry = Some ''gravatar'' \<and>
   default_enabled example_registry \<and>
   fst (disable_service ''gravatar'' False example_registry) = Inr () \<and>
   priv_default_service_id (snd (disable_service ''gravatar'' False example_registry)) = None"
  using default_implies_enabled [OF reachable_example, where sid = "''gravatar''" and flag = False]
    reachable_example
  by (simp add: example_registry_eq)


lemma populate_populated_snd: "priv_populated r \<Longrightarrow> snd (populate r) = r"
  by (simp add: populate_populated)

lemma check_registered_Some:
  "s \<in> set ss \<Longrightarrow> \<not> has_service_populated (avatar_service_id s) r \<Longrightarrow>
   \<exists>i. check_registered ss r = Some (AvatarServiceNotFoundError UNKNOWN_SERVICE_ENABLED i) \<and>
       \<not> has_service_populated i r"
  by (induction ss) auto

text \<open>
  Claim C3. The setter of \<^verbatim>\<open>enabled_services\<close>, called at a reachable registry with a
  collection that has an element whose id is not registered, raises the lookup error
  with the message \<^verbatim>\<open>UNKNOWN_SERVICE_ENABLED\<close> and leaves the registry as lazy population
  left it; at a registry that was populated before the call the whole state (enabled
  ids, default id, site configuration) is exactly what it was, wherever the
  unregistered element stands in the collection.
\<close>

theorem set_enabled_services_fails_atomically:
  assumes "reachable r" and "s \<in> set services"
    and "\<not> has_service_populated (avatar_service_id s) (snd (populate r))"
  shows "\<exists>i. set_enabled_services services r =
             (Inl (AvatarServiceNotFoundError UNKNOWN_SERVICE_ENABLED i), snd (populate r)) \<and>
           \<not> has_service_populated i (snd (populate r)) \<and>
           (priv_populated r \<longrightarrow> snd (populate r) = r)"
proof -
  have inv: "reg_inv r"
    using assms(1) by (rule reachable_reg_inv)
  have "s \<in> set (remdups services)"
    using assms(2) by simp
  then obtain i where
    i: "check_registered (remdups services) (snd (populate r)) =
          Some (AvatarServiceNotFoundError UNKNOWN_SERVICE_ENABLED i)"
      "\<not> has_service_populated i (snd (populate r))"
    using check_registered_Some [OF _ assms(3)] by blast
  have "set_enabled_services services r =
          (Inl (AvatarServiceNotFoundError UNKNOWN_SERVICE_ENABLED i), snd (populate r))"
    by (simp add: set_enabled_services_def after_populate_eq [OF inv]
        set_enabled_services_populated_def i(1))
  then show ?thesis
    using i(2) by (auto simp: populate_populated_snd)
qed

theorem set_enabled_services_fails_atomically_witness:
  "reachable example_registry \<and> unknown_service \<in> set [gravatar, unknown_service] \<and>
   set_enabled_services [gravatar, unknown_service] example_registry =
     (Inl (AvatarServiceNotFoundError UNKNOWN_SERVICE_ENABLED ''unknown''), example_registry)"
proof -
  have p: "snd (populate example_registry) = example_registry"
    by (simp add: populate_populated_snd example_registry_eq)
  have h: "\<not> has_service_populated (avatar_service_id unknown_service) (snd (populate example_registry))"
    unfolding p
    by (simp add: example_registry_eq unknown_service_def has_service_populated_def
        get_avatar_service_populated_def registry_get_def)
  have m: "unknown_service \<in> set [gravatar, unknown_service]"
    by simp
  obtain i where i: "set_enabled_services [gravatar, unknown_service] example_registry =
      (Inl (AvatarServiceNotFoundError UNKNOWN_SERVICE_ENABLED i), example_registry)"
      "\<not> has_service_populated i example_registry"
    using set_enabled_services_fails_atomically [OF reachable_example m h] unfolding p by blast
  have "set_enabled_services [gravatar, unknown_service] example_registry =
      (Inl (AvatarServiceNotFoundError UNKNOWN_SERVICE_ENABLED ''unknown''), example_registry)"
    by (simp add: set_enabled_services_def after_populate_def populate_populated
        set_enabled_services_populated_def example_registry_eq gravatar_def unknown_service_def
        has_service_populated_def get_avatar_service_populated_def registry_get_def
        registry_contains_def)
  then show ?thesis
    using reachable_example i by simp
qed

text \<open>
  Claim C5, as amended. For a service whose id is not registered, \<^verbatim>\<open>unregister\<close> raises
  the registry's lookup error \<open>AvatarServiceNotFoundError\<close>, raised by
  \<^verbatim>\<open>disable_service\<close> with the message \<^verbatim>\<open>UNKNOWN_SERVICE_DISABLED\<close>, and the state
  (catalog, enabled ids, default id, site configuration) is unchanged; an unpopulated
  registry is populated by the call.
\<close>

theorem unregister_unknown_id:
  assumes "reachable r"
    and "\<not> has_service_populated (avatar_service_id svc) (snd (populate r))"
  shows "unregister svc r =
           (Inl (AvatarServiceNotFoundError UNKNOWN_SERVICE_DISABLED (avatar_service_id svc)),
            snd (populate r)) \<and>
         (priv_populated r \<longrightarrow> snd (populate r) = r)"
proof -
  have inv: "reg_inv r"
    using assms(1) by (rule reachable_reg_inv)
  show ?thesis
    using assms(2)
    by (simp add: unregister_def disable_service_def after_populate_eq [OF inv]
        disable_service_populated_def populate_populated_snd)
qed

lemma unknown_not_registered:
  "\<not> has_service_populated (avatar_service_id unknown_service) example_registry"
  by (simp add: example_registry_eq unknown_service_def has_service_populated_def
      get_avatar_service_populated_def registry_get_def)

theorem unregister_unknown_id_witness:
  "reachable example_registry \<and>
   unregister unknown_service example_registry =
     (Inl (AvatarServiceNotFoundError UNKNOWN_SERVICE_DISABLED ''unknown''), example_registry)"
proof -
  have p: "snd (populate example_registry) = example_registry"
    by (simp add: populate_populated_snd example_registry_eq)
  have h: "\<not> has_service_populated (avatar_service_id unknown_service) (snd (populate example_registry))"
    unfolding p by (rule unknown_not_registered)
  show ?thesis
    using unregister_unknown_id [OF reachable_example h] reachable_example
    by (simp add: p unknown_service_def)
qed

text \<open>
  The claim as first stated fails twice. For a service with an unregistered id the
  error is the lookup error, not \<open>NotRegisteredError\<close>. For an unregistered object that
  shares its id with a registered service, the base class raises \<open>NotRegisteredError\<close>
  only after the registered service was disabled and the default cleared.
\<close>

theorem unregister_absent_counterexample:
  "\<not> registry_contains unknown_service example_registry \<and>
   fst (unregister unknown_service example_registry) =
     Inl (AvatarServiceNotFoundError UNKNOWN_SERVICE_DISABLED ''unknown'') \<and>
   fst (unregister unknown_service example_registry) \<noteq>
     Inl (NotRegisteredError UNREGISTER ''unknown'') \<and>
   \<not> registry_contains gravatar_copy example_registry \<and>
   fst (unregister gravatar_copy example_registry) = Inl (NotRegisteredError UNREGISTER ''gravatar'') \<and>
   priv_enabled_services example_registry = [''gravatar''] \<and>
   priv_enabled_services (snd (unregister gravatar_copy example_registry)) = [] \<and>
   priv_default_service_id example_registry = Some ''gravatar'' \<and>
   priv_default_service_id (snd (unregister gravatar_copy example_registry)) = None"
  by (simp add: unregister_def disable_service_def after_populate_def populate_populated
      disable_service_populated_def example_registry_eq gravatar_def unknown_service_def
      gravatar_copy_def file_upload_def
      has_service_populated_def get_avatar_service_populated_def registry_get_def
      registry_contains_def default_service_populated_def set_default_service_populated_def
      save_if_def save_def registry_unregister_def Let_def)

lemma pinv_lookups:
  assumes "pinv r"
  shows "has_service_populated i r = (priv_registry r i \<noteq> None)"
    and "is_enabled_populated i r = (priv_registry r i \<noteq> None \<and> i \<in> set (priv_enabled_services r))"
    and "priv_registry r i = Some s \<Longrightarrow> get_avatar_service_populated i r = Inr s"
    and "default_service_populated r = Inr (service_of (priv_default_service_id r) r)"
proof -
  have c: "catalog_ok r"
    using assms by (simp add: pinv_def reg_inv_def)
  show "has_service_populated i r = (priv_registry r i \<noteq> None)"
    by (rule has_service_iff [OF c])
  then show "is_enabled_populated i r = (priv_registry r i \<noteq> None \<and> i \<in> set (priv_enabled_services r))"
    by (simp add: is_enabled_populated_def)
  show "priv_registry r i = Some s \<Longrightarrow> get_avatar_service_populated i r = Inr s"
    by (simp add: get_avatar_service_populated_def registry_get_def)
  show "default_service_populated r = Inr (service_of (priv_default_service_id r) r)"
  proof (cases "priv_default_service_id r")
    case None
    then show ?thesis by (simp add: default_service_populated_def service_of_def)
  next
    case (Some d)
    then have "d \<in> dom (priv_registry r)"
      using assms by (auto simp: pinv_def reg_inv_def default_enabled_def)
    then show ?thesis
      using Some by (auto simp: default_service_populated_def service_of_def
          get_avatar_service_populated_def registry_get_def)
  qed
qed

lemma try_service_ids_spec:
  assumes "pinv r"
  shows "try_service_ids [service_id, user_service_id] r =
           Inr (for_user_spec user_service_id service_id r)"
  using pinv_lookups(4) [OF assms]
  by (cases service_id; cases user_service_id)
    (auto simp: for_user_spec_def eligible_def service_of_def pinv_lookups(1,2) [OF assms]
      pinv_lookups(3) [OF assms])

text \<open>
  Claim C8. At a reachable registry \<^verbatim>\<open>for_user\<close> never raises and returns what the
  resolution order of the specification gives: the requested service if its id is
  given, registered and enabled, else the user's service under the same conditions,
  else the default service or \<open>None\<close>. With a requested id \<open>b\<close> that is registered but
  not enabled and a user's id \<open>a\<close> that is enabled, the result is the service of \<open>a\<close>.
\<close>

theorem for_user_resolution_order:
  assumes "reachable r"
  shows "for_user user_service_id service_id r =
           (Inr (for_user_spec user_service_id service_id (snd (populate r))), snd (populate r)) \<and>
         (priv_registry (snd (populate r)) b \<noteq> None \<and>
          b \<notin> set (priv_enabled_services (snd (populate r))) \<and>
          a \<in> set (priv_enabled_services (snd (populate r))) \<longrightarrow>
            (\<exists>s. priv_registry (snd (populate r)) a = Some s \<and>
                 fst (for_user (Some a) (Some b) r) = Inr (Some s)))"
proof -
  have inv: "reg_inv r"
    using assms by (rule reachable_reg_inv)
  have p: "pinv (snd (populate r))"
    using populate_ok [OF inv] by simp
  have eq: "for_user u i r = (Inr (for_user_spec u i (snd (populate r))), snd (populate r))" for u i
    by (simp add: for_user_def after_populate_eq [OF inv] try_service_ids_spec [OF p])
  have "\<exists>s. priv_registry (snd (populate r)) a = Some s \<and>
            fst (for_user (Some a) (Some b) r) = Inr (Some s)"
    if "b \<notin> set (priv_enabled_services (snd (populate r)))"
      and "a \<in> set (priv_enabled_services (snd (populate r)))"
  proof -
    have "a \<in> dom (priv_registry (snd (populate r)))"
      using p that(2) by (auto simp: pinv_def reg_inv_def)
    then show ?thesis
      using that by (auto simp: eq for_user_spec_def eligible_def service_of_def)
  qed
  then show ?thesis
    using eq by blast
qed

theorem for_user_resolution_order_witness:
  "reachable example_registry \<and>
   priv_registry example_registry ''file-upload'' \<noteq> None \<and>
   ''file-upload'' \<notin> set (priv_enabled_services example_registry) \<and>
   ''gravatar'' \<in> set (priv_enabled_services example_registry) \<and>
   for_user (Some ''gravatar'') (Some ''file-upload'') example_registry =
     (Inr (Some gravatar), example_registry)"
proof -
  have p: "snd (populate example_registry) = example_registry"
    by (simp add: populate_populated_snd example_registry_eq)
  show ?thesis
    using for_user_resolution_order [OF reachable_example, of "Some ''gravatar''" "Some ''file-upload''"
        "''file-upload''" "''gravatar''"] reachable_example
    by (simp add: p for_user_spec_def eligible_def service_of_def)
      (simp add: example_registry_eq)
qed

text \<open>
  Claim C4 at a concrete input: \<^verbatim>\<open>disable_service('gravatar', save=False)\<close> at a registry
  whose default service is \<^verbatim>\<open>gravatar\<close> returns, and the site configuration has been
  written and committed once more: its list of enabled ids and its default id changed.
\<close>

theorem disable_service_deferred_save_writes:
  "priv_default_service_id example_registry = Some ''gravatar'' \<and>
   fst (disable_service ''gravatar'' False example_registry) = Inr () \<and>
   saves (siteconfig example_registry) = 2 \<and>
   saves (siteconfig (snd (disable_service ''gravatar'' False example_registry))) = 3 \<and>
   avatars_enabled_services (siteconfig example_registry) = Some [''gravatar''] \<and>
   avatars_enabled_services (siteconfig (snd (disable_service ''gravatar'' False example_registry))) = Some [] \<and>
   avatars_default_service (siteconfig example_registry) = Some ''gravatar'' \<and>
   avatars_default_service (siteconfig (snd (disable_service ''gravatar'' False example_registry))) = None"
  by (simp add: disable_service_def after_populate_def populate_populated
      disable_service_populated_def example_registry_eq gravatar_def file_upload_def
      has_service_populated_def get_avatar_service_populated_def registry_get_def
      registry_contains_def default_service_populated_def set_default_service_populated_def
      save_if_def save_def Let_def)

text \<open>
  Where the id is not the default, the deferred call writes nothing.
\<close>

lemma disable_service_deferred_other:
  assumes "pinv r" and "priv_default_service_id r \<noteq> Some sid"
  shows "siteconfig (snd (disable_service sid False r)) = siteconfig r"
proof -
  have eq: "disable_service sid False r = disable_service_populated sid False r"
    using assms(1) by (simp add: disable_service_def after_populate_def populate_populated pinv_def)
  have c: "catalog_ok r"
    using assms(1) by (simp add: pinv_def reg_inv_def)
  show ?thesis
    using assms(2) c
    by (auto simp: eq disable_service_populated_def Let_def default_service_populated_def
        get_avatar_service_populated_def registry_get_def save_if_def catalog_ok_def
        split: option.splits)
qed

lemma populate_default_result:
  assumes "catalog_ok r"
  shows "populate_default d r =
           (Inr (),
            (case priv_registry r d of
               None \<Rightarrow> log_error UNKNOWN_SERVICE_DEFAULT d r
             | Some s \<Rightarrow>
                 if d \<in> set (priv_enabled_services r)
                 then save (r\<lparr>priv_default_service_id := Some d\<rparr>)
                 else log_error DISABLED_SERVICE_DEFAULT d r))"
proof (cases "priv_registry r d")
  case None
  then show ?thesis
    by (simp add: populate_default_def registry_get_def)
next
  case (Some s)
  then have sid: "avatar_service_id s = d"
    using assms by (simp add: catalog_ok_def)
  have has: "has_service_populated d r"
    using Some assms by (simp add: has_service_iff)
  show ?thesis
    using Some sid has
    by (simp add: populate_default_def registry_get_def set_default_service_populated_def
        registry_contains_def is_enabled_populated_def save_if_def)
qed

text \<open>
  Claim C6. Populating a new registry never raises, whatever the site configuration
  holds. The registered ones of the persisted ids are enabled, each unregistered one is
  logged with \<^verbatim>\<open>UNKNOWN_SERVICE_ENABLED\<close>; a persisted default id becomes the default if
  it is registered and enabled, and is otherwise logged (\<^verbatim>\<open>UNKNOWN_SERVICE_DEFAULT\<close> when
  unregistered, \<^verbatim>\<open>DISABLED_SERVICE_DEFAULT\<close> when not enabled) with the default left
  unset; the reconciled state is what the site configuration holds afterwards.
\<close>

theorem populate_tolerant:
  assumes "distinct (map avatar_service_id defaults)"
  shows "\<exists>r'. populate (new_registry defaults cfg) = (Inr (), r') \<and>
           priv_populated r' \<and>
           priv_registry r' = map_of (map (\<lambda>s. (avatar_service_id s, s)) defaults) \<and>
           set (priv_enabled_services r') =
             {i \<in> set (case avatars_enabled_services cfg of None \<Rightarrow> [] | Some sids \<Rightarrow> sids).
                priv_registry r' i \<noteq> None} \<and>
           priv_default_service_id r' =
             (case avatars_default_service cfg of
                None \<Rightarrow> None
              | Some d \<Rightarrow>
                  if priv_registry r' d \<noteq> None \<and> d \<in> set (priv_enabled_services r')
                  then Some d else None) \<and>
           logging r' =
             map (Pair UNKNOWN_SERVICE_ENABLED)
               (filter (\<lambda>i. priv_registry r' i = None)
                  (case avatars_enabled_services cfg of None \<Rightarrow> [] | Some sids \<Rightarrow> sids)) @
             (case avatars_default_service cfg of
                None \<Rightarrow> []
              | Some d \<Rightarrow>
                  if priv_registry r' d = None then [(UNKNOWN_SERVICE_DEFAULT, d)]
                  else if d \<notin> set (priv_enabled_services r') then [(DISABLED_SERVICE_DEFAULT, d)]
                  else []) \<and>
           avatars_enabled_services (siteconfig r') = Some (priv_enabled_services r') \<and>
           avatars_default_service (siteconfig r') = priv_default_service_id r'"
proof -
  let ?r = "new_registry defaults cfg"
  let ?reg = "map_of (map (\<lambda>s. (avatar_service_id s, s)) defaults)"
  let ?sids = "case avatars_enabled_services cfg of None \<Rightarrow> [] | Some sids \<Rightarrow> sids"
  have inv: "reg_inv ?r"
    using assms by (rule reg_inv_new_registry)
  have np: "\<not> priv_populated ?r"
    by (simp add: new_registry_def)
  define r1 where "r1 = ?r\<lparr>priv_populated := True, priv_registry := ?reg\<rparr>"
  have s1: "registry_populate ?r = (Inr (), r1)"
    using registry_populate_new [OF inv np] by (simp add: r1_def new_registry_def)
  have c1: "catalog_ok r1"
    by (auto simp: r1_def catalog_ok_def dest: map_of_ids)
  define r2 where "r2 = r1\<lparr>priv_enabled_services := fold List.insert (filter (\<lambda>s. ?reg s \<noteq> None) ?sids) [],
       logging := map (Pair UNKNOWN_SERVICE_ENABLED) (filter (\<lambda>s. ?reg s = None) ?sids)\<rparr>"
  have s2: "(case avatars_enabled_services (siteconfig r1) of
               None \<Rightarrow> (Inr (), r1)
             | Some sids \<Rightarrow> enable_persisted sids r1) = (Inr (), r2)"
  proof (cases "avatars_enabled_services cfg")
    case None
    then show ?thesis
      by (simp add: r1_def r2_def new_registry_def)
  next
    case (Some sids)
    have "enable_persisted sids r1 = (Inr (), r2)"
      unfolding enable_persisted_result [OF c1]
      by (simp add: r1_def r2_def new_registry_def Some)
    then show ?thesis
      using Some by (simp add: r1_def new_registry_def)
  qed
  have c2: "catalog_ok r2"
    using c1 by (simp add: r2_def catalog_ok_def)
  have f2: "priv_registry r2 = ?reg" "priv_populated r2" "siteconfig r2 = cfg"
    "set (priv_enabled_services r2) = {i \<in> set ?sids. ?reg i \<noteq> None}"
    "logging r2 = map (Pair UNKNOWN_SERVICE_ENABLED) (filter (\<lambda>s. ?reg s = None) ?sids)"
    "priv_default_service_id r2 = None"
    by (auto simp: r2_def r1_def new_registry_def set_fold_insert)
  define r3 where "r3 = (case avatars_default_service cfg of
               None \<Rightarrow> r2
             | Some d \<Rightarrow>
                (case ?reg d of
                   None \<Rightarrow> log_error UNKNOWN_SERVICE_DEFAULT d r2
                 | Some s \<Rightarrow>
                     if d \<in> set (priv_enabled_services r2)
                     then save (r2\<lparr>priv_default_service_id := Some d\<rparr>)
                     else log_error DISABLED_SERVICE_DEFAULT d r2))"
  have s3: "(case avatars_default_service (siteconfig r2) of
               None \<Rightarrow> (Inr (), r2)
             | Some d \<Rightarrow> populate_default d r2) = (Inr (), r3)"
    by (cases "avatars_default_service cfg")
      (simp_all add: f2 r3_def populate_default_result [OF c2])
  have pop: "populate ?r = (Inr (), save r3)"
    using np s1 s2 s3 by (simp add: populate_def)
  have f3: "priv_registry r3 = ?reg" "priv_populated r3"
    "priv_enabled_services r3 = priv_enabled_services r2"
    by (auto simp: r3_def f2 split: option.splits)
  have d3: "priv_default_service_id r3 =
             (case avatars_default_service cfg of
                None \<Rightarrow> None
              | Some d \<Rightarrow>
                  if ?reg d \<noteq> None \<and> d \<in> set (priv_enabled_services r2)
                  then Some d else None)"
    by (auto simp: r3_def f2 log_error_def split: option.splits)
  have l3: "logging r3 = logging r2 @
             (case avatars_default_service cfg of
                None \<Rightarrow> []
              | Some d \<Rightarrow>
                  if ?reg d = None then [(UNKNOWN_SERVICE_DEFAULT, d)]
                  else if d \<notin> set (priv_enabled_services r2) then [(DISABLED_SERVICE_DEFAULT, d)]
                  else [])"
    by (auto simp: r3_def log_error_def split: option.splits)
  have sv: "avatars_enabled_services (siteconfig (save r3)) = Some (priv_enabled_services r3)"
    "avatars_default_service (siteconfig (save r3)) = priv_default_service_id r3"
    by (simp_all add: save_def)
  show ?thesis
    unfolding pop
    by (rule exI [of _ "save r3"]) (simp add: f3 d3 l3 f2 sv split: option.splits)
qed

theorem populate_tolerant_witness:
  "distinct (map avatar_service_id [gravatar, file_upload]) \<and>
   populate (new_registry [gravatar, file_upload]
      \<lparr>avatars_enabled_services = Some [''gravatar'', ''stale''],
       avatars_default_service = Some ''file-upload'', saves = 0\<rparr>) =
     (Inr (),
      \<lparr>priv_populated = True,
       priv_registry = [''gravatar'' \<mapsto> gravatar, ''file-upload'' \<mapsto> file_upload],
       priv_enabled_services = [''gravatar''],
       priv_default_service_id = None,
       default_avatar_service_classes = [gravatar, file_upload],
       siteconfig = \<lparr>avatars_enabled_services = Some [''gravatar''],
                     avatars_default_service = None, saves = 1\<rparr>,
       logging = [(UNKNOWN_SERVICE_ENABLED, ''stale''), (DISABLED_SERVICE_DEFAULT, ''file-upload'')]\<rparr>)"
proof -
  have d: "distinct (map avatar_service_id [gravatar, file_upload])"
    by (simp add: gravatar_def file_upload_def)
  obtain r' where "populate (new_registry [gravatar, file_upload]
      \<lparr>avatars_enabled_services = Some [''gravatar'', ''stale''],
       avatars_default_service = Some ''file-upload'', saves = 0\<rparr>) = (Inr (), r')"
    using populate_tolerant [OF d] by blast
  moreover have "snd (populate (new_registry [gravatar, file_upload]
      \<lparr>avatars_enabled_services = Some [''gravatar'', ''stale''],
       avatars_default_service = Some ''file-upload'', saves = 0\<rparr>)) =
      \<lparr>priv_populated = True,
       priv_registry = [''gravatar'' \<mapsto> gravatar, ''file-upload'' \<mapsto> file_upload],
       priv_enabled_services = [''gravatar''],
       priv_default_service_id = None,
       default_avatar_service_classes = [gravatar, file_upload],
       siteconfig = \<lparr>avatars_enabled_services = Some [''gravatar''],
                     avatars_default_service = None, saves = 1\<rparr>,
       logging = [(UNKNOWN_SERVICE_ENABLED, ''stale''), (DISABLED_SERVICE_DEFAULT, ''file-upload'')]\<rparr>"
    by (simp add: populate_def new_registry_def registry_populate_def
      registry_register_def gravatar_def file_upload_def
      has_service_populated_def get_avatar_service_populated_def registry_get_def
      registry_contains_def enable_service_populated_def save_if_def log_error_def
      populate_default_def set_default_service_populated_def is_enabled_populated_def save_def)
  ultimately show ?thesis
    using d by simp
qed

section \<open>Properties of the counter field\<close>

lemma queryset_update_queries:
  "queries (queryset_update qs as d) = queries d @ [QUpdate qs as]"
  by (simp add: queryset_update_def)

lemma reload_db:
  "db (snd (snd (priv_reload_model_instance inst names st))) =
     (db st)\<lparr>queries := queries (db st) @ [QValues (FilterPk (pk inst)) names]\<rparr>"
  by (simp add: priv_reload_model_instance_def Let_def split: option.splits)

lemma priv_increment_db:
  "increment_by \<noteq> 0 \<Longrightarrow>
   db (snd (snd (priv_increment fld inst reload_object increment_by st))) =
     (let d = queryset_update (FilterPk (pk inst))
                [(attname fld, CombinedAdd (F (attname fld)) (Value (Some increment_by)))] (db st)
      in if reload_object
         then d\<lparr>queries := queries d @ [QValues (FilterPk (pk inst)) [attname fld]]\<rparr>
         else d)"
  by (simp add: priv_increment_def increment_def priv_reload_def reload_db Let_def)

lemma priv_decrement_db:
  "decrement_by \<noteq> 0 \<Longrightarrow>
   db (snd (snd (priv_decrement fld inst reload_object decrement_by st))) =
     (let d = queryset_update (FilterPk (pk inst))
                [(attname fld, CombinedSub (F (attname fld)) (Value (Some decrement_by)))] (db st)
      in if reload_object
         then d\<lparr>queries := queries d @ [QValues (FilterPk (pk inst)) [attname fld]]\<rparr>
         else d)"
  by (simp add: priv_decrement_def decrement_def priv_reload_def reload_db Let_def)

lemma update_add_rows:
  "rows (queryset_update (FilterPk (Some k)) [(c, CombinedAdd (F c) (Value (Some n)))] d) =
     (\<lambda>j. if j = k then map_option (plus_delta c n) (rows d k) else rows d j)"
  by (auto simp: queryset_update_def assign_def plus_delta_def fun_eq_iff split: option.splits)

lemma update_sub_rows:
  "rows (queryset_update (FilterPk (Some k)) [(c, CombinedSub (F c) (Value (Some n)))] d) =
     (\<lambda>j. if j = k then map_option (plus_delta c (- n)) (rows d k) else rows d j)"
  by (auto simp: queryset_update_def assign_def plus_delta_def fun_eq_iff split: option.splits)

text \<open>
  Claim C2. For an instance with a primary key and a delta other than 0,
  \<^verbatim>\<open>_increment\<close> sends exactly one update, \<^verbatim>\<open>column = F(column) + delta\<close> on the query
  set filtered by that primary key, and nothing before it; a reload, if asked for, comes
  after. The stored value of that row grows by the delta whatever the instance holds in
  memory, and no other row changes. \<^verbatim>\<open>_decrement\<close> does the same with
  \<^verbatim>\<open>F(column) - delta\<close>. Two increments by 1 without reload, from two objects of the
  same row, take a stored 10 to 12.
\<close>

theorem counter_increment_atomic:
  assumes "pk inst = Some k" and "delta \<noteq> 0"
  shows "queries (db (snd (snd (priv_increment fld inst reload_object delta st)))) =
           queries (db st) @
           QUpdate (FilterPk (Some k))
             [(attname fld, CombinedAdd (F (attname fld)) (Value (Some delta)))] #
           (if reload_object then [QValues (FilterPk (Some k)) [attname fld]] else []) \<and>
         rows (db (snd (snd (priv_increment fld inst reload_object delta st)))) =
           (\<lambda>j. if j = k then map_option (plus_delta (attname fld) delta) (rows (db st) k)
                else rows (db st) j) \<and>
         queries (db (snd (snd (priv_decrement fld inst reload_object delta st)))) =
           queries (db st) @
           QUpdate (FilterPk (Some k))
             [(attname fld, CombinedSub (F (attname fld)) (Value (Some delta)))] #
           (if reload_object then [QValues (FilterPk (Some k)) [attname fld]] else []) \<and>
         rows (db (snd (snd (priv_decrement fld inst reload_object delta st)))) =
           (\<lambda>j. if j = k then map_option (plus_delta (attname fld) (- delta)) (rows (db st) k)
                else rows (db st) j) \<and>
         (pk other = Some k \<and> rows (db st) k = Some row \<and> row (attname fld) = Some 10 \<longrightarrow>
            (\<exists>row'. rows (db (snd (snd (priv_increment fld other False 1
                          (snd (snd (priv_increment fld inst False 1 st))))))) k = Some row' \<and>
                    row' (attname fld) = Some 12))"
proof -
  have a: "queries (db (snd (snd (priv_increment fld inst reload_object delta st)))) =
           queries (db st) @
           QUpdate (FilterPk (Some k))
             [(attname fld, CombinedAdd (F (attname fld)) (Value (Some delta)))] #
           (if reload_object then [QValues (FilterPk (Some k)) [attname fld]] else [])"
    using assms by (simp add: priv_increment_db Let_def queryset_update_queries)
  have b: "rows (db (snd (snd (priv_increment fld i reload_object d s)))) =
           (\<lambda>j. if j = k then map_option (plus_delta (attname fld) d) (rows (db s) k)
                else rows (db s) j)" if "pk i = Some k" "d \<noteq> 0" for i d s
    using that
    by (simp add: priv_increment_db Let_def update_add_rows)
  have c: "queries (db (snd (snd (priv_decrement fld inst reload_object delta st)))) =
           queries (db st) @
           QUpdate (FilterPk (Some k))
             [(attname fld, CombinedSub (F (attname fld)) (Value (Some delta)))] #
           (if reload_object then [QValues (FilterPk (Some k)) [attname fld]] else [])"
    using assms by (simp add: priv_decrement_db Let_def queryset_update_queries)
  have d: "rows (db (snd (snd (priv_decrement fld inst reload_object delta st)))) =
           (\<lambda>j. if j = k then map_option (plus_delta (attname fld) (- delta)) (rows (db st) k)
                else rows (db st) j)"
    using assms
    by (simp add: priv_decrement_db Let_def update_sub_rows)
  have b': "rows (db (snd (snd (priv_increment fld i False d s)))) =
           (\<lambda>j. if j = k then map_option (plus_delta (attname fld) d) (rows (db s) k)
                else rows (db s) j)" if "pk i = Some k" "d \<noteq> 0" for i d s
    using that
    by (simp add: priv_increment_db Let_def update_add_rows)
  have e: "\<exists>row'. rows (db (snd (snd (priv_increment fld other False 1
                          (snd (snd (priv_increment fld inst False 1 st))))))) k = Some row' \<and>
                    row' (attname fld) = Some 12"
    if "pk other = Some k" "rows (db st) k = Some row" "row (attname fld) = Some 10"
    using that assms(1) by (simp add: b' plus_delta_def)
  show ?thesis
    using a b [OF assms] c d e by blast
qed

theorem counter_increment_atomic_witness:
  "pk example_instance = Some 42 \<and> (1::int) \<noteq> 0 \<and>
   queries (db (snd (snd (priv_increment plain_field example_instance True 1 example_state)))) =
     [QUpdate (FilterPk (Some 42)) [(''counter'', CombinedAdd (F ''counter'') (Value (Some 1)))],
      QValues (FilterPk (Some 42)) [''counter'']] \<and>
   (\<exists>row'. rows (db (snd (snd (priv_increment plain_field other_instance False 1
               (snd (snd (priv_increment plain_field example_instance False 1 example_state))))))) 42
             = Some row' \<and> row' ''counter'' = Some 12)"
proof -
  have p: "pk example_instance = Some 42" "pk other_instance = Some 42"
    by (simp_all add: example_instance_def other_instance_def)
  have n: "(1::int) \<noteq> 0"
    by simp
  have r: "rows (db example_state) 42 = Some ((\<lambda>c. None)(''counter'' := Some 10))"
    "((\<lambda>c. None)(''counter'' := Some (10::int))) (attname plain_field) = Some 10"
    by (simp_all add: example_state_def plain_field_def)
  show ?thesis
    using counter_increment_atomic [OF p(1) n, of plain_field True example_state other_instance
        "(\<lambda>c. None)(''counter'' := Some 10)"] p r
    by (simp add: plain_field_def example_state_def)
qed

lemma nested_loads_locked:
  "priv_locks st (py_id inst) \<noteq> None \<Longrightarrow> \<forall>obj\<in>set objs. py_id obj = py_id inst \<Longrightarrow>
   nested_loads objs (priv_post_init reinit fld) inst st = Some (Inr (), inst, st)"
proof (induction objs)
  case Nil
  show ?case by simp
next
  case (Cons obj objs)
  have same: "py_id obj = py_id inst"
    using Cons.prems(2) by simp
  have skip: "priv_post_init reinit fld inst st = Some (Inr (), inst, st)"
    using Cons.prems(1) by (auto simp: priv_post_init_def)
  have all: "\<forall>obj\<in>set objs. py_id obj = py_id inst"
    using Cons.prems(2) by (simp only: list.set ball_simps) blast
  have rest: "nested_loads objs (priv_post_init reinit fld) inst st = Some (Inr (), inst, st)"
    by (rule Cons.IH [OF Cons.prems(1) all])
  show ?case
    using same rest by (simp add: skip)
qed

lemma initial_value_callable:
  assumes "priv_initializer fld = CallableInitializer b"
    and "nested_loads (fst (b inst (observed inst st))) (priv_post_init reinit fld) inst
           (observed inst st) = Some (Inr (), inst1, st1)"
  shows "initial_value reinit fld inst st =
           (case snd (b inst (observed inst st)) of
              Inl e \<Rightarrow> Some (Inl e, inst1, st1)
            | Inr v \<Rightarrow>
                (case priv_locks st1 (py_id inst) of
                   None \<Rightarrow> Some (Inl KeyError, inst1, st1)
                 | Some l \<Rightarrow>
                     Some (Inr v, inst1, st1\<lparr>priv_locks := (priv_locks st1)(py_id inst := None)\<rparr>)))"
  using assms(2)
  by (simp add: initial_value_def assms(1) call_initializer_def Let_def observed_def
      split: sum.splits)

lemma initial_value_self:
  assumes "priv_initializer fld = CallableInitializer b"
    and "b inst (observed inst st) = (objs, Inr v)"
    and "\<forall>obj\<in>set objs. py_id obj = py_id inst"
  shows "initial_value reinit fld inst st =
           Some (Inr v, inst,
                 st\<lparr>priv_locks := (priv_locks st)(py_id inst := None),
                    initializer_calls := initializer_calls st @ [py_id inst]\<rparr>)"
proof -
  have l: "priv_locks (observed inst st) (py_id inst) \<noteq> None"
    by (simp add: observed_def)
  have n: "nested_loads (fst (b inst (observed inst st))) (priv_post_init reinit fld) inst
           (observed inst st) = Some (Inr (), inst, observed inst st)"
    using nested_loads_locked [OF l, of objs reinit fld] assms(2,3) by simp
  show ?thesis
    unfolding initial_value_callable [OF assms(1) n]
    by (simp add: assms(2)) (simp add: observed_def)
qed

lemma priv_reinit_self:
  assumes "priv_initializer fld = CallableInitializer b"
    and "b inst (observed inst st) = (objs, Inr v)"
    and "\<forall>obj\<in>set objs. py_id obj = py_id inst"
  shows "priv_reinit (Suc n) fld inst st =
           Some (store_value fld v inst
                   (st\<lparr>priv_locks := (priv_locks st)(py_id inst := None),
                      initializer_calls := initializer_calls st @ [py_id inst]\<rparr>))"
  using assms(1) by (simp add: initial_value_self [OF assms])




lemma store_value_no_pk:
  "\<not> pk_truthy (pk inst) \<Longrightarrow>
   store_value fld (Some (PyExpr e)) inst st = (Inr (), setattr inst (attname fld) (Some (PyInt 0)), st)"
  by (simp add: store_value_def)


lemma model_save_single:
  assumes "pk inst = Some k"
    and "filter (\<lambda>f. field_attname f = a) (model_fields inst) =
           [\<lparr>field_attname = a, is_CounterField = True\<rparr>]"
    and "attrs inst a = Some (PyInt v)"
  shows "model_save inst [a] st =
           ((if rows (db st) k = None then Inl DatabaseError else Inr ()), inst,
            st\<lparr>db := (db st)\<lparr>rows := (case rows (db st) k of
                                        None \<Rightarrow> rows (db st)
                                      | Some row \<Rightarrow> (rows (db st))(k \<mapsto> row(a := Some v))),
                             queries := queries (db st) @ [QSave k [(a, Value (Some v))]]\<rparr>\<rparr>)"
proof -
  have "\<lparr>field_attname = a, is_CounterField = True\<rparr> \<in> set (filter (\<lambda>f. field_attname f = a) (model_fields inst))"
    using assms(2) by simp
  then have mem: "a \<in> field_attname ` set (model_fields inst)"
    by force
  have as: "assign row [(a, Value (Some v))] = row(a := Some v)" for row
    by (auto simp: assign_def fun_eq_iff)
  show ?thesis
    using mem assms
    by (auto simp: model_save_def priv_model_do_update_def django_do_update_def Let_def as
        split: option.splits)
qed

lemma store_value_int_pk:
  assumes "pk inst = Some k" and "k \<noteq> 0"
    and "filter (\<lambda>f. field_attname f = attname fld) (model_fields inst) =
           [\<lparr>field_attname = attname fld, is_CounterField = True\<rparr>]"
    and "rows (db st) k = Some row"
  shows "store_value fld (Some (PyInt v)) inst st =
           (Inr (), setattr inst (attname fld) (Some (PyInt v)),
            st\<lparr>db := (db st)\<lparr>rows := (rows (db st))(k \<mapsto> row(attname fld := Some v)),
                             queries := queries (db st) @ [QSave k [(attname fld, Value (Some v))]]\<rparr>\<rparr>)"
proof -
  let ?i = "setattr inst (attname fld) (Some (PyInt v))"
  have t: "pk_truthy (pk inst)"
    using assms(1,2) by (simp add: pk_truthy_def)
  have "store_value fld (Some (PyInt v)) inst st = model_save ?i [attname fld] st"
    using t by (simp add: store_value_def)
  also have "\<dots> = ((if rows (db st) k = None then Inl DatabaseError else Inr ()), ?i,
            st\<lparr>db := (db st)\<lparr>rows := (case rows (db st) k of
                                        None \<Rightarrow> rows (db st)
                                      | Some row \<Rightarrow> (rows (db st))(k \<mapsto> row(attname fld := Some v))),
                             queries := queries (db st) @ [QSave k [(attname fld, Value (Some v))]]\<rparr>\<rparr>)"
    by (rule model_save_single) (use assms in \<open>simp_all add: setattr_def\<close>)
  finally show ?thesis
    using assms(4) by simp
qed

lemma example_facts:
  "pk unset_instance = Some 42"
  "filter (\<lambda>f. field_attname f = ''counter'') (model_fields unset_instance) =
     [\<lparr>field_attname = ''counter'', is_CounterField = True\<rparr>]"
  "rows (db example_state) 42 = Some ((\<lambda>c. None)(''counter'' := Some 10))"
  "rows (db (example_state\<lparr>initializer_calls := cs\<rparr>)) 42 = Some ((\<lambda>c. None)(''counter'' := Some 10))"
  by (simp_all add: unset_instance_def example_instance_def example_state_def counter_desc_def)




lemma priv_reinit_raises:
  assumes "priv_initializer fld = CallableInitializer b"
    and "b inst (observed inst st) = ([], Inl e)"
  shows "priv_reinit (Suc n) fld inst st = Some (Inl e, inst, observed inst st)"
proof -
  have n: "nested_loads (fst (b inst (observed inst st))) (priv_post_init (priv_reinit n) fld) inst
           (observed inst st) = Some (Inr (), inst, observed inst st)"
    by (simp add: assms(2))
  show ?thesis
    using assms by (simp add: initial_value_callable [OF assms(1) n])
qed

text \<open>
  A lock left behind by a raising initializer stays: the next load of that object
  skips the initialization.
\<close>

lemma raising_initializer_keeps_lock:
  assumes "priv_initializer fld = CallableInitializer b"
    and "b inst (observed inst st) = ([], Inl e)"
    and "priv_reinit (Suc n) fld inst st = Some (res, inst', st')"
  shows "res = Inl e \<and> priv_locks st' (py_id inst) = Some 1 \<and>
         post_init m fld inst st' = Some (Inr (), inst, st')"
  using assms(3) unfolding priv_reinit_raises [OF assms(1,2)]
  by (auto simp: observed_def post_init_def priv_post_init_def)






lemma priv_reinit_expr:
  assumes "priv_initializer fld = ExprInitializer e"
  shows "priv_reinit (Suc n) fld inst st = Some (store_value fld (Some (PyExpr e)) inst st)"
  using assms by (simp add: initial_value_def)

text \<open>
  Claim C7. If the initializer is a query expression, or a callable whose run returns
  one and loads no object but the instance itself, and the primary key of the instance
  is unset, \<^verbatim>\<open>_reinit\<close> returns with the counter in memory set to the integer 0 and
  with the database as it was: no statement is sent.
\<close>

theorem reinit_expression_without_pk:
  assumes "\<not> pk_truthy (pk inst)"
    and "priv_initializer fld = ExprInitializer e \<or>
         (priv_initializer fld = CallableInitializer b \<and>
          b inst (observed inst st) = (objs, Inr (Some (PyExpr e))) \<and>
          (\<forall>obj\<in>set objs. py_id obj = py_id inst))"
  shows "\<exists>inst' st'.
           priv_reinit (Suc n) fld inst st = Some (Inr (), inst', st') \<and>
           inst' = setattr inst (attname fld) (Some (PyInt 0)) \<and>
           attrs inst' (attname fld) = Some (PyInt 0) \<and>
           db st' = db st"
  using assms(2)
proof
  assume "priv_initializer fld = ExprInitializer e"
  then show ?thesis
    using assms(1) by (simp add: priv_reinit_expr store_value_no_pk setattr_def del: priv_reinit.simps)
next
  assume c: "priv_initializer fld = CallableInitializer b \<and>
          b inst (observed inst st) = (objs, Inr (Some (PyExpr e))) \<and>
          (\<forall>obj\<in>set objs. py_id obj = py_id inst)"
  have "priv_reinit (Suc n) fld inst st =
           Some (store_value fld (Some (PyExpr e)) inst
                   (st\<lparr>priv_locks := (priv_locks st)(py_id inst := None),
                      initializer_calls := initializer_calls st @ [py_id inst]\<rparr>))"
    using c by (intro priv_reinit_self [of fld b inst st objs]) simp_all
  then show ?thesis
    using assms(1) by (simp add: store_value_no_pk setattr_def del: priv_reinit.simps)
qed

theorem reinit_expression_without_pk_witness:
  "\<not> pk_truthy (pk unsaved_instance) \<and>
   priv_initializer expr_field = ExprInitializer (F ''other'') \<and>
   priv_reinit 1 expr_field unsaved_instance example_state =
     Some (Inr (), unsaved_instance\<lparr>attrs := (\<lambda>a. None)(''counter'' := Some (PyInt 0))\<rparr>, example_state)"
proof -
  have h: "\<not> pk_truthy (pk unsaved_instance)"
    by (simp add: unsaved_instance_def pk_truthy_def)
  have i: "priv_initializer expr_field = ExprInitializer (F ''other'') \<or>
         (priv_initializer expr_field = CallableInitializer (\<lambda>i s. ([], Inl ValueError)) \<and>
          (\<lambda>i s. ([], Inl ValueError)) unsaved_instance (observed unsaved_instance example_state) =
            ([], Inr (Some (PyExpr (F ''other'')))) \<and>
          (\<forall>obj\<in>set []. py_id obj = py_id unsaved_instance))"
    by (simp add: expr_field_def)
  have e: "priv_reinit 1 expr_field unsaved_instance example_state =
     Some (Inr (), unsaved_instance\<lparr>attrs := (\<lambda>a. None)(''counter'' := Some (PyInt 0))\<rparr>, example_state)"
    using reinit_expression_without_pk [OF h i, of 0]
    by (simp add: expr_field_def unsaved_instance_def pk_truthy_def initial_value_def
        store_value_def setattr_def)
  show ?thesis
    using h e by (simp add: expr_field_def)
qed

lemma priv_reinit_plain:
  assumes "priv_initializer fld = NoInitializer" and "pk_truthy (pk inst)"
  shows "priv_reinit (Suc n) fld inst st = Some (store_value fld (Some (PyInt 0)) inst st)"
  using assms by (simp add: initial_value_def)

text \<open>
  Claim C10. With no initializer, \<^verbatim>\<open>_reinit\<close> does nothing at an instance whose
  primary key is unset. At an instance with a primary key, of a model that declares
  the counter field, it sets the counter in memory to 0 and sends one statement, the
  save of that one column with the value 0; if the row exists the call returns and
  the stored counter is 0.
\<close>

theorem reinit_without_initializer:
  assumes "priv_initializer fld = NoInitializer"
  shows "(\<not> pk_truthy (pk inst) \<longrightarrow> priv_reinit (Suc n) fld inst st = Some (Inr (), inst, st)) \<and>
         (pk inst = Some k \<and> k \<noteq> 0 \<and>
          filter (\<lambda>f. field_attname f = attname fld) (model_fields inst) =
            [\<lparr>field_attname = attname fld, is_CounterField = True\<rparr>] \<longrightarrow>
            (\<exists>res st'.
               priv_reinit (Suc n) fld inst st =
                 Some (res, setattr inst (attname fld) (Some (PyInt 0)), st') \<and>
               queries (db st') = queries (db st) @ [QSave k [(attname fld, Value (Some 0))]] \<and>
               priv_locks st' = priv_locks st \<and>
               (\<forall>row. rows (db st) k = Some row \<longrightarrow>
                  res = Inr () \<and>
                  rows (db st') = (rows (db st))(k \<mapsto> row(attname fld := Some 0)))))"
proof -
  have a: "priv_reinit (Suc n) fld inst st = Some (Inr (), inst, st)" if "\<not> pk_truthy (pk inst)"
    using that assms by simp
  have b: "\<exists>res st'.
               priv_reinit (Suc n) fld inst st =
                 Some (res, setattr inst (attname fld) (Some (PyInt 0)), st') \<and>
               queries (db st') = queries (db st) @ [QSave k [(attname fld, Value (Some 0))]] \<and>
               priv_locks st' = priv_locks st \<and>
               (\<forall>row. rows (db st) k = Some row \<longrightarrow>
                  res = Inr () \<and>
                  rows (db st') = (rows (db st))(k \<mapsto> row(attname fld := Some 0)))"
    if h: "pk inst = Some k" "k \<noteq> 0"
      "filter (\<lambda>f. field_attname f = attname fld) (model_fields inst) =
            [\<lparr>field_attname = attname fld, is_CounterField = True\<rparr>]"
  proof -
    let ?i = "setattr inst (attname fld) (Some (PyInt 0))"
    have t: "pk_truthy (pk inst)"
      using h by (simp add: pk_truthy_def)
    have s: "model_save ?i [attname fld] st =
           ((if rows (db st) k = None then Inl DatabaseError else Inr ()), ?i,
            st\<lparr>db := (db st)\<lparr>rows := (case rows (db st) k of
                                        None \<Rightarrow> rows (db st)
                                      | Some row \<Rightarrow> (rows (db st))(k \<mapsto> row(attname fld := Some 0))),
                             queries := queries (db st) @ [QSave k [(attname fld, Value (Some 0))]]\<rparr>\<rparr>)"
      by (rule model_save_single) (use h in \<open>simp_all add: setattr_def\<close>)
    have "priv_reinit (Suc n) fld inst st = Some (model_save ?i [attname fld] st)"
      using t by (simp add: priv_reinit_plain [OF assms t] store_value_def del: priv_reinit.simps)
    then show ?thesis
      unfolding s by simp
  qed
  show ?thesis
    using a b by blast
qed

theorem reinit_without_initializer_witness:
  "priv_initializer plain_field = NoInitializer \<and>
   \<not> pk_truthy (pk unsaved_instance) \<and>
   priv_reinit 1 plain_field unsaved_instance example_state = Some (Inr (), unsaved_instance, example_state) \<and>
   pk unset_instance = Some 42 \<and>
   priv_reinit 1 plain_field unset_instance example_state =
     Some (Inr (), unset_instance\<lparr>attrs := (\<lambda>a. None)(''counter'' := Some (PyInt 0))\<rparr>,
           example_state\<lparr>db := \<lparr>rows = [42 \<mapsto> (\<lambda>c. None)(''counter'' := Some 0)],
                                 queries = [QSave 42 [(''counter'', Value (Some 0))]]\<rparr>\<rparr>)"
proof -
  have h: "priv_initializer plain_field = NoInitializer"
    by (simp add: plain_field_def)
  have t: "pk_truthy (pk unset_instance)"
    by (simp add: example_facts pk_truthy_def)
  have e: "priv_reinit 1 plain_field unset_instance example_state =
     Some (Inr (), unset_instance\<lparr>attrs := (\<lambda>a. None)(''counter'' := Some (PyInt 0))\<rparr>,
           example_state\<lparr>db := \<lparr>rows = [42 \<mapsto> (\<lambda>c. None)(''counter'' := Some 0)],
                                 queries = [QSave 42 [(''counter'', Value (Some 0))]]\<rparr>\<rparr>)"
    using store_value_int_pk [of unset_instance 42 plain_field example_state
        "(\<lambda>c. None)(''counter'' := Some 10)" 0]
      example_facts priv_reinit_plain [OF h t, of 0 example_state]
    by (simp add: plain_field_def del: priv_reinit.simps)
      (simp add: unset_instance_def example_instance_def example_state_def setattr_def)
  show ?thesis
    using reinit_without_initializer [OF h, of unsaved_instance 0 example_state 42] h e
    by (simp add: unsaved_instance_def pk_truthy_def unset_instance_def example_instance_def)
qed

end
